theory Spec2Isabelle
  imports Main "HOL-Library.Word"
begin

section \<open>The WWBridge class of src/index.js\<close>

text \<open>
  The bridge queues outbound events, hands them to the native host one per timer tick by
  assigning a locator to the \<^verbatim>\<open>src\<close> attribute of a hidden iframe, and keeps each
  event's serialised data in \<^verbatim>\<open>window.mobileBridge._storage\<close> until the host pulls it
  out. The host answers through \<^verbatim>\<open>window.mobileBridge.send\<close>, which dispatches a
  \<^verbatim>\<open>bridgeSend\<close> event on the iframe.

  The object and the pieces of the browser it touches (the iframe, the exposed global, the
  interval timers, the console) are one record; every method takes the record and returns
  the updated one.
\<close>

subsection \<open>Constants\<close>

definition PROTOCOL_SCHEMA :: string where
  "PROTOCOL_SCHEMA = ''ww''"

definition REGISTRATION_EVENT_NAME :: string where
  "REGISTRATION_EVENT_NAME = ''_register''"

definition BRIDGE_SEND_EVENT :: string where
  "BRIDGE_SEND_EVENT = ''bridgeSend''"

definition BRIDGE_REGISTER_EVENT :: string where
  "BRIDGE_REGISTER_EVENT = ''bridgeRegister''"

subsection \<open>Values\<close>

text \<open>
  JavaScript values as far as the bridge looks at them: it tests them for truthiness,
  spreads their own enumerable properties, and passes them to \<^verbatim>\<open>JSON.stringify\<close>.
  Numbers are carried as integers; nothing below computes with them.
\<close>

datatype jsval =
    Undefined
  | Null
  | Bool bool
  | Num int
  | Str string
  | Arr "jsval list"
  | Obj "(string \<times> jsval) list"

fun truthy :: "jsval \<Rightarrow> bool" where
  "truthy Undefined = False"
| "truthy Null = False"
| "truthy (Bool b) = b"
| "truthy (Num n) = (n \<noteq> 0)"
| "truthy (Str s) = (s \<noteq> [])"
| "truthy (Arr xs) = True"
| "truthy (Obj kvs) = True"

text \<open>The decimal spelling of an array index, as a property key.\<close>

fun decimal :: "nat \<Rightarrow> string" where
  "decimal n =
     (if n < 10 then [''0123456789'' ! n]
      else decimal (n div 10) @ [''0123456789'' ! (n mod 10)])"

declare decimal.simps [simp del]

text \<open>
  The own enumerable properties that an object spread \<^verbatim>\<open>{...v}\<close> copies: the entries of
  an object, the indexed elements of an array, the indexed characters of a string, and
  nothing for any other value.
\<close>

fun own_props :: "jsval \<Rightarrow> (string \<times> jsval) list" where
  "own_props (Obj kvs) = kvs"
| "own_props (Arr xs) = zip (map decimal [0..<length xs]) xs"
| "own_props (Str s) = zip (map decimal [0..<length s]) (map (\<lambda>c. Str [c]) s)"
| "own_props v = []"

text \<open>Assigning properties one after the other: a later one wins.\<close>

definition assign_props :: "(string \<rightharpoonup> jsval) \<Rightarrow> (string \<times> jsval) list \<Rightarrow> (string \<rightharpoonup> jsval)" where
  "assign_props m kvs = fold (\<lambda>kv acc. acc(fst kv \<mapsto> snd kv)) kvs m"

text \<open>
  \<^verbatim>\<open>JSON.parse\<close> and \<^verbatim>\<open>JSON.stringify\<close> belong to the platform, not to the
  repository, so they are parameters. \<open>JSON_parse\<close> gives \<open>None\<close> where the platform
  throws a SyntaxError; \<open>JSON_stringify\<close> gives \<open>None\<close> where the platform returns
  \<^verbatim>\<open>undefined\<close>.
\<close>

record platform =
  JSON_parse :: "string \<Rightarrow> jsval option"
  JSON_stringify :: "jsval \<Rightarrow> string option"

subsection \<open>State\<close>

text \<open>An entry of the send queue: \<^verbatim>\<open>{ name, data, id }\<close>.\<close>

record event =
  evt_name :: string
  evt_data :: jsval
  evt_id :: string

text \<open>A DOM CustomEvent: its type and its \<^verbatim>\<open>detail: { name, data }\<close>.\<close>

record custom_event =
  event_type :: string
  detail_name :: string
  detail_data :: jsval

datatype console_entry =
    ConsoleLog string jsval
  | ConsoleError string

datatype error = TypeError string

text \<open>
  The fields of the object, without the leading underscore, followed by the browser state
  the object reaches:
  \<^item> \<open>registerHandler\<close>: whether \<^verbatim>\<open>this._registerHandler\<close> holds the handler closure
    (it is unset or \<^verbatim>\<open>null\<close> otherwise);
  \<^item> \<open>interval\<close>: \<^verbatim>\<open>this._interval\<close>, a timer handle, \<open>None\<close> when unset or
    \<^verbatim>\<open>null\<close>;
  \<^item> \<open>window_defined\<close>: the outcome of \<^verbatim>\<open>typeof window !== 'undefined'\<close>, fixed for the
    life of the object. The iframe exists exactly when it holds, since \<^verbatim>\<open>_createIframe\<close>
    runs once, in the constructor;
  \<^item> \<open>iframe_src\<close>: every value assigned to the iframe's \<^verbatim>\<open>src\<close> attribute, oldest
    first. Each assignment is one navigation the host intercepts;
  \<^item> \<open>handler_listening\<close>: whether the registration handler is among the iframe's
    listeners for \<^verbatim>\<open>bridgeSend\<close>; \<open>app_listeners\<close>: the listeners that application
    code attached, by event type and an identity of the callback;
  \<^item> \<open>dispatched\<close>: every event dispatched on the iframe, oldest first;
  \<^item> \<open>exposed_storage\<close>: \<^verbatim>\<open>window.mobileBridge._storage\<close>;
  \<^item> \<open>timers\<close>: the handles of the intervals of this object that are running;
    \<open>timer_seq\<close>: the last handle handed out;
  \<^item> \<open>console\<close>: what was written to the console, oldest first.
\<close>

record bridge =
  sendQueue :: "event list"
  debug :: bool
  isBridgeRegistered :: bool
  isBridgeRegistrationSent :: bool
  storage :: "string \<rightharpoonup> jsval"
  registerHandler :: bool
  interval :: "nat option"
  window_defined :: bool
  iframe_src :: "string list"
  handler_listening :: bool
  app_listeners :: "(string \<times> nat) list"
  dispatched :: "custom_event list"
  exposed_storage :: "string \<rightharpoonup> jsval"
  timers :: "nat list"
  timer_seq :: nat
  console :: "console_entry list"

subsection \<open>Identifiers\<close>

text \<open>
  \<^verbatim>\<open>s4\<close> renders \<^verbatim>\<open>Math.floor((1 + Math.random()) * 0x10000)\<close> in base 16 and drops the
  first digit. The number lies between \<^verbatim>\<open>0x10000\<close> and \<^verbatim>\<open>0x20000\<close>, so what is left are
  the four hexadecimal digits of its low 16 bits. The model takes those 16 bits as the
  random draw; \<^verbatim>\<open>_generateId\<close> makes eight draws.
\<close>

definition hex_digit :: "nat \<Rightarrow> char" where
  "hex_digit n = ''0123456789abcdef'' ! (n mod 16)"

definition s4 :: "16 word \<Rightarrow> string" where
  "s4 w = map (\<lambda>i. hex_digit (unat (drop_bit i w))) [12, 8, 4, 0]"

datatype entropy = Entropy "16 word" "16 word" "16 word" "16 word" "16 word" "16 word" "16 word" "16 word"

fun generateId :: "entropy \<Rightarrow> string" where
  "generateId (Entropy a b c d e f g h) =
     s4 a @ s4 b @ ''-'' @ s4 c @ ''-'' @ s4 d @ ''-'' @ s4 e @ ''-'' @ s4 f @ s4 g @ s4 h"

subsection \<open>Listeners\<close>

text \<open>
  \<^verbatim>\<open>on\<close> and \<^verbatim>\<open>remove\<close> for a callback of the application. \<^verbatim>\<open>addEventListener\<close> does
  not add a listener twice.
\<close>

definition on_event :: "string \<Rightarrow> nat \<Rightarrow> bridge \<Rightarrow> bridge" where
  "on_event name handler s =
     (if window_defined s then
        (if (name, handler) \<in> set (app_listeners s) then s
         else s\<lparr>app_listeners := app_listeners s @ [(name, handler)]\<rparr>)
      else s)"

definition remove_event :: "string \<Rightarrow> nat \<Rightarrow> bridge \<Rightarrow> bridge" where
  "remove_event name handler s =
     (if window_defined s then s\<lparr>app_listeners := removeAll (name, handler) (app_listeners s)\<rparr>
      else s)"

text \<open>
  The same two methods called with \<^verbatim>\<open>this._registerHandler\<close>, which the class only ever
  passes together with \<^verbatim>\<open>BRIDGE_SEND_EVENT\<close>.
\<close>

definition on_registerHandler :: "bridge \<Rightarrow> bridge" where
  "on_registerHandler s = (if window_defined s then s\<lparr>handler_listening := True\<rparr> else s)"

definition remove_registerHandler :: "bridge \<Rightarrow> bridge" where
  "remove_registerHandler s = (if window_defined s then s\<lparr>handler_listening := False\<rparr> else s)"

subsection \<open>The transport\<close>

definition wrapSchema :: "string \<Rightarrow> string \<Rightarrow> string" where
  "wrapSchema eventName ident = PROTOCOL_SCHEMA @ ''://'' @ eventName @ ''/'' @ ident"

text \<open>
  \<^verbatim>\<open>_addData\<close>: the entry holds the text \<^verbatim>\<open>JSON.stringify\<close> returns, or
  \<^verbatim>\<open>undefined\<close> when it returns that.
\<close>

definition stringified :: "platform \<Rightarrow> jsval \<Rightarrow> jsval" where
  "stringified P v = (case JSON_stringify P v of None \<Rightarrow> Undefined | Some t \<Rightarrow> Str t)"

definition addData :: "platform \<Rightarrow> string \<Rightarrow> jsval \<Rightarrow> bridge \<Rightarrow> bridge" where
  "addData P ident data s =
     s\<lparr>exposed_storage := (exposed_storage s)(ident \<mapsto> stringified P data)\<rparr>"

subsection \<open>Inbound notifications\<close>

text \<open>
  \<^verbatim>\<open>_createEvent\<close>. The detail starts out holding \<open>data\<close> as it was given; a truthy
  \<open>data\<close> is parsed, and the parsed value replaces it only when parsing succeeds. When
  parsing throws, the catch block writes a fixed message to the console and the detail
  keeps the text. The argument is a text or \<^verbatim>\<open>undefined\<close> (\<open>None\<close>).
\<close>

definition createEvent :: "platform \<Rightarrow> string \<Rightarrow> string \<Rightarrow> string option \<Rightarrow> bridge \<Rightarrow> custom_event \<times> bridge" where
  "createEvent P eventType name data s =
     (case data of
        None \<Rightarrow> (\<lparr>event_type = eventType, detail_name = name, detail_data = Undefined\<rparr>, s)
      | Some raw \<Rightarrow>
          (if truthy (Str raw) then
             (case JSON_parse P raw of
                Some v \<Rightarrow> (\<lparr>event_type = eventType, detail_name = name, detail_data = v\<rparr>, s)
              | None \<Rightarrow>
                  (\<lparr>event_type = eventType, detail_name = name, detail_data = Str raw\<rparr>,
                   s\<lparr>console := console s @ [ConsoleError ''Can't parse json data'']\<rparr>))
           else (\<lparr>event_type = eventType, detail_name = name, detail_data = Str raw\<rparr>, s)))"

text \<open>
  \<^verbatim>\<open>dispatchEvent\<close> for an event that only listeners of the application can receive:
  the dispatch is recorded. An exception inside a listener is reported by the browser and
  does not reach the code that dispatched.
\<close>

definition notify :: "custom_event \<Rightarrow> bridge \<Rightarrow> bridge" where
  "notify evt s = s\<lparr>dispatched := dispatched s @ [evt]\<rparr>"

text \<open>
  The closure stored in \<^verbatim>\<open>_registerHandler\<close>. The event it dispatches has the type
  \<^verbatim>\<open>bridgeRegister\<close>, which the closure itself does not listen to.
\<close>

definition registerHandler_call :: "platform \<Rightarrow> custom_event \<Rightarrow> bridge \<Rightarrow> bridge" where
  "registerHandler_call P evt s =
     (let name = detail_name evt; data = detail_data evt in
      if name = REGISTRATION_EVENT_NAME then
        (let s1 = s\<lparr>isBridgeRegistered := True\<rparr>;
             s2 = s1\<lparr>storage := assign_props (storage s1) (own_props (if truthy data then data else Obj []))\<rparr>;
             (e, s3) = createEvent P BRIDGE_REGISTER_EVENT name (JSON_stringify P data) s2
         in notify e s3)
      else s)"

text \<open>
  \<^verbatim>\<open>this._iframe.dispatchEvent\<close> for a \<^verbatim>\<open>bridgeSend\<close> event: the registration handler
  runs when it is still attached.
\<close>

definition dispatchEvent :: "platform \<Rightarrow> custom_event \<Rightarrow> bridge \<Rightarrow> bridge" where
  "dispatchEvent P evt s =
     (let s1 = notify evt s in
      if event_type evt = BRIDGE_SEND_EVENT \<and> handler_listening s1
      then registerHandler_call P evt s1 else s1)"

text \<open>
  The function \<^verbatim>\<open>send\<close> of \<^verbatim>\<open>window.mobileBridge\<close>, an object that exists when
  \<open>window_defined\<close>.
\<close>

definition exposed_send :: "platform \<Rightarrow> string \<Rightarrow> string option \<Rightarrow> bridge \<Rightarrow> bridge" where
  "exposed_send P name data s =
     (let (evt, s1) = createEvent P BRIDGE_SEND_EVENT name data s;
          s2 = (if debug s1
                then s1\<lparr>console := console s1 @
                       [ConsoleLog (''Native invokes bridge with event '' @ [CHR 0x27] @ name @ [CHR 0x27])
                          (detail_data evt)]\<rparr>
                else s1)
      in dispatchEvent P evt s2)"

text \<open>
  \<^verbatim>\<open>pullOutDataById\<close> reads the entry and deletes it; a missing entry reads as
  \<^verbatim>\<open>undefined\<close>. The map holds the own properties of the storage object. The keys the
  bridge writes are made by \<^verbatim>\<open>_generateId\<close>, hexadecimal digits and hyphens, and no
  property a plain object inherits has such a name.
\<close>

definition pullOutDataById :: "string \<Rightarrow> bridge \<Rightarrow> jsval \<times> bridge" where
  "pullOutDataById ident s =
     (let data = (case exposed_storage s ident of None \<Rightarrow> Undefined | Some v \<Rightarrow> v)
      in (data, s\<lparr>exposed_storage := (exposed_storage s)(ident := None)\<rparr>))"

subsection \<open>The send queue and its timer\<close>

text \<open>
  \<^verbatim>\<open>remove\<close> of lodash, a library the class imports. By its documentation it removes
  all elements the predicate holds for from the array and returns an array of the removed
  elements; the shorthand \<^verbatim>\<open>{ name: X }\<close> is the predicate that the element's
  \<^verbatim>\<open>name\<close> equals \<^verbatim>\<open>X\<close>. The result is the pair of the removed elements and the
  array as it is left.
\<close>

definition lodash_remove :: "('a \<Rightarrow> bool) \<Rightarrow> 'a list \<Rightarrow> 'a list \<times> 'a list" where
  "lodash_remove p xs = (filter p xs, filter (\<lambda>x. \<not> p x) xs)"

text \<open>
  The body of the interval's callback after the test for an empty queue, up to the
  assignment of \<^verbatim>\<open>evt\<close>: which event, if any, this tick takes.
\<close>

definition next_event :: "bridge \<Rightarrow> event option \<times> bridge" where
  "next_event s =
     (if isBridgeRegistered s then
        (let s1 = (if registerHandler s then (remove_registerHandler s)\<lparr>registerHandler := False\<rparr> else s)
         in case sendQueue s1 of
              [] \<Rightarrow> (None, s1)
            | e # rest \<Rightarrow> (Some e, s1\<lparr>sendQueue := rest\<rparr>))
      else if \<not> isBridgeRegistrationSent s then
        (let (removed, rest) = lodash_remove (\<lambda>e. evt_name e = REGISTRATION_EVENT_NAME) (sendQueue s)
         in (case removed of [] \<Rightarrow> None | e # _ \<Rightarrow> Some e,
             s\<lparr>sendQueue := rest, isBridgeRegistrationSent := True\<rparr>))
      else (None, s))"

text \<open>
  The block guarded by \<^verbatim>\<open>if (evt)\<close>. Without a window there is no iframe, and the call
  of \<^verbatim>\<open>setAttribute\<close> on \<^verbatim>\<open>undefined\<close> throws.
\<close>

definition deliver :: "platform \<Rightarrow> event \<Rightarrow> bridge \<Rightarrow> (error \<times> bridge) + bridge" where
  "deliver P e s =
     (let addr = wrapSchema (evt_name e) (evt_id e);
          s1 = (if debug s
                then s\<lparr>console := console s @ [ConsoleLog (''JS invokes bridge '' @ addr) (evt_data e)]\<rparr>
                else s)
      in if window_defined s1
         then Inr (addData P (evt_id e) (evt_data e) (s1\<lparr>iframe_src := iframe_src s1 @ [addr]\<rparr>))
         else Inl (TypeError ''Cannot read properties of undefined'', s1))"

text \<open>
  One run of the interval's callback. \<open>Inl\<close> carries the exception and the state the
  callback left behind when it threw.
\<close>

definition tick :: "platform \<Rightarrow> bridge \<Rightarrow> (error \<times> bridge) + bridge" where
  "tick P s =
     (if sendQueue s = [] then
        Inr (s\<lparr>timers := (case interval s of None \<Rightarrow> timers s | Some h \<Rightarrow> removeAll h (timers s)),
               interval := None\<rparr>)
      else
        (case next_event s of
           (None, s1) \<Rightarrow> Inr s1
         | (Some e, s1) \<Rightarrow> deliver P e s1))"

text \<open>
  \<^verbatim>\<open>_utilizeQueue\<close>: nothing happens while \<^verbatim>\<open>this._interval\<close> is truthy; otherwise a new
  interval is started and its handle kept. Handles are positive integers.
\<close>

definition utilizeQueue :: "bridge \<Rightarrow> bridge" where
  "utilizeQueue s =
     (if (case interval s of None \<Rightarrow> False | Some h \<Rightarrow> h \<noteq> 0) then s
      else (let h = Suc (timer_seq s)
            in s\<lparr>interval := Some h, timers := timers s @ [h], timer_seq := h\<rparr>))"

definition send :: "string \<Rightarrow> jsval \<Rightarrow> entropy \<Rightarrow> bridge \<Rightarrow> bridge" where
  "send name data rnd s =
     utilizeQueue (s\<lparr>sendQueue := sendQueue s @ [\<lparr>evt_name = name, evt_data = data, evt_id = generateId rnd\<rparr>]\<rparr>)"

subsection \<open>Construction\<close>

definition exposeBridge :: "bridge \<Rightarrow> bridge" where
  "exposeBridge s = (if window_defined s then s\<lparr>exposed_storage := Map.empty\<rparr> else s)"

text \<open>\<^verbatim>\<open>this.send(REGISTRATION_EVENT_NAME)\<close> passes no data: it is \<^verbatim>\<open>undefined\<close>.\<close>

definition registerBridge :: "entropy \<Rightarrow> bridge \<Rightarrow> bridge" where
  "registerBridge rnd s =
     (if window_defined s
      then send REGISTRATION_EVENT_NAME Undefined rnd (on_registerHandler (s\<lparr>registerHandler := True\<rparr>))
      else s)"

text \<open>
  The constructor, given whether a window exists, the \<^verbatim>\<open>debug\<close> option and the random
  draws of the one identifier it may generate.
\<close>

definition construct :: "bool \<Rightarrow> bool \<Rightarrow> entropy \<Rightarrow> bridge" where
  "construct w dbg rnd =
     registerBridge rnd (exposeBridge
       \<lparr>sendQueue = [], debug = dbg, isBridgeRegistered = False, isBridgeRegistrationSent = False,
        storage = Map.empty, registerHandler = False, interval = None, window_defined = w,
        iframe_src = [], handler_listening = False, app_listeners = [], dispatched = [],
        exposed_storage = Map.empty, timers = [], timer_seq = 0, console = []\<rparr>)"

subsection \<open>Runs\<close>

text \<open>
  What can happen to a bridge: the application calls \<^verbatim>\<open>send\<close>, \<^verbatim>\<open>on\<close> or
  \<^verbatim>\<open>remove\<close>, the interval fires, or the host calls one of the two exposed functions.
  The interval fires only while it is running, and an exception in its callback does not
  stop it. The exposed functions exist only where a window does. A listener of the
  application that calls back into the bridge appears in a run as the operation it calls.
\<close>

datatype op =
    Send string jsval entropy
  | On string nat
  | Remove string nat
  | Tick
  | HostSend string "string option"
  | HostPull string

text \<open>The state a run of the callback leaves behind, whether it returned or threw.\<close>

definition after :: "(error \<times> bridge) + bridge \<Rightarrow> bridge" where
  "after r = (case r of Inl (err, s) \<Rightarrow> s | Inr s \<Rightarrow> s)"

fun step :: "platform \<Rightarrow> op \<Rightarrow> bridge \<Rightarrow> bridge" where
  "step P (Send name data rnd) s = send name data rnd s"
| "step P (On name h) s = on_event name h s"
| "step P (Remove name h) s = remove_event name h s"
| "step P Tick s =
     (if timers s = [] then s else after (tick P s))"
| "step P (HostSend name data) s = (if window_defined s then exposed_send P name data s else s)"
| "step P (HostPull ident) s = (if window_defined s then snd (pullOutDataById ident s) else s)"

fun run :: "platform \<Rightarrow> op list \<Rightarrow> bridge \<Rightarrow> bridge" where
  "run P [] s = s"
| "run P (x # xs) s = run P xs (step P x s)"

definition reachable :: "platform \<Rightarrow> bridge \<Rightarrow> bool" where
  "reachable P s = (\<exists>ops w dbg rnd. s = run P ops (construct w dbg rnd))"

section \<open>Notions used in the statements\<close>

text \<open>The locator a queued event is delivered under, and the test \<^verbatim>\<open>remove\<close> applies.\<close>

definition locator :: "event \<Rightarrow> string" where
  "locator e = wrapSchema (evt_name e) (evt_id e)"

definition is_registration :: "event \<Rightarrow> bool" where
  "is_registration e = (evt_name e = REGISTRATION_EVENT_NAME)"

text \<open>The events that the \<^verbatim>\<open>send\<close> calls of a run put into the queue, in order.\<close>

fun enqueued :: "op list \<Rightarrow> event list" where
  "enqueued [] = []"
| "enqueued (Send name data rnd # xs) =
     \<lparr>evt_name = name, evt_data = data, evt_id = generateId rnd\<rparr> # enqueued xs"
| "enqueued (x # xs) = enqueued xs"

text \<open>
  An inbound notification that carries the registration name, and how many of them a run
  holds.
\<close>

fun is_reply :: "op \<Rightarrow> bool" where
  "is_reply (HostSend name data) = (name = REGISTRATION_EVENT_NAME)"
| "is_reply x = False"

definition replies :: "op list \<Rightarrow> nat" where
  "replies ops = length (filter is_reply ops)"

text \<open>
  How many of them arrive while the registration handler is still listening, and how
  often \<^verbatim>\<open>_isBridgeRegistered\<close> goes from false to true in a run.
\<close>

fun heard :: "platform \<Rightarrow> op list \<Rightarrow> bridge \<Rightarrow> nat" where
  "heard P [] s = 0"
| "heard P (x # xs) s =
     (if is_reply x \<and> handler_listening s then 1 else 0) + heard P xs (step P x s)"

fun transitions :: "platform \<Rightarrow> op list \<Rightarrow> bridge \<Rightarrow> nat" where
  "transitions P [] s = 0"
| "transitions P (x # xs) s =
     (if \<not> isBridgeRegistered s \<and> isBridgeRegistered (step P x s) then 1 else 0)
     + transitions P xs (step P x s)"

text \<open>The number of \<^verbatim>\<open>bridgeRegister\<close> events dispatched so far.\<close>

definition registered_events :: "bridge \<Rightarrow> nat" where
  "registered_events s =
     length (filter (\<lambda>e. event_type e = BRIDGE_REGISTER_EVENT) (dispatched s))"

text \<open>
  The three registration states of the specification, read off the two flags of the
  class, and their order.
\<close>

datatype RegistrationState = Unregistered | RegistrationSent | Registered

definition registrationState :: "bridge \<Rightarrow> RegistrationState" where
  "registrationState s =
     (if isBridgeRegistered s then Registered
      else if isBridgeRegistrationSent s then RegistrationSent
      else Unregistered)"

fun stage :: "RegistrationState \<Rightarrow> nat" where
  "stage Unregistered = 0"
| "stage RegistrationSent = 1"
| "stage Registered = 2"

section \<open>Closed forms of the operations\<close>

text \<open>What \<^verbatim>\<open>_createEvent\<close> puts into the detail, and what it writes to the console.\<close>

definition parsed_data :: "platform \<Rightarrow> string option \<Rightarrow> jsval" where
  "parsed_data P d =
     (case d of
        None \<Rightarrow> Undefined
      | Some raw \<Rightarrow>
          (if raw = [] then Str raw
           else (case JSON_parse P raw of Some v \<Rightarrow> v | None \<Rightarrow> Str raw)))"

definition parse_errors :: "platform \<Rightarrow> string option \<Rightarrow> console_entry list" where
  "parse_errors P d =
     (case d of
        None \<Rightarrow> []
      | Some raw \<Rightarrow>
          (if raw \<noteq> [] \<and> JSON_parse P raw = None
           then [ConsoleError ''Can't parse json data''] else []))"

text \<open>The \<^verbatim>\<open>bridgeRegister\<close> event the handler dispatches for a \<^verbatim>\<open>bridgeSend\<close> event.\<close>

definition registered_event :: "platform \<Rightarrow> custom_event \<Rightarrow> custom_event" where
  "registered_event P evt =
     \<lparr>event_type = BRIDGE_REGISTER_EVENT, detail_name = detail_name evt,
      detail_data = parsed_data P (JSON_stringify P (detail_data evt))\<rparr>"

definition debug_trace :: "string \<Rightarrow> jsval \<Rightarrow> bridge \<Rightarrow> console_entry list" where
  "debug_trace n v s =
     (if debug s
      then [ConsoleLog (''Native invokes bridge with event '' @ [CHR 0x27] @ n @ [CHR 0x27]) v]
      else [])"

text \<open>
  The state after the two branches of a tick that select an event: the registration
  handler detached, and the registration events taken out with the flag set.
\<close>

definition detached :: "bridge \<Rightarrow> bridge" where
  "detached s =
     (if registerHandler s then (remove_registerHandler s)\<lparr>registerHandler := False\<rparr> else s)"

definition unsent_tick :: "bridge \<Rightarrow> bridge" where
  "unsent_tick s =
     s\<lparr>sendQueue := filter (\<lambda>e. evt_name e \<noteq> REGISTRATION_EVENT_NAME) (sendQueue s),
       isBridgeRegistrationSent := True\<rparr>"

section \<open>Invariants of a run\<close>

text \<open>
  \<^item> \<open>one_task\<close>: the running intervals are exactly the one whose handle
    \<^verbatim>\<open>this._interval\<close> holds;
  \<^item> \<open>handler_ok\<close>: the handler listens only while the object refers to it and a window
    exists, it listens as long as the bridge is not registered, and only a bridge with a
    window gets registered;
  \<^item> \<open>quiet_until_sent\<close>: nothing reaches the iframe before the registration flag or the
    registered flag is set;
  \<^item> \<open>head_is_registration\<close>: in a bridge with a window that is not registered and has
    not sent its registration, the queue starts with a registration event.
\<close>

definition one_task :: "bridge \<Rightarrow> bool" where
  "one_task s =
     (timers s = (case interval s of None \<Rightarrow> [] | Some h \<Rightarrow> [h]) \<and> interval s \<noteq> Some 0)"

definition handler_ok :: "bridge \<Rightarrow> bool" where
  "handler_ok s =
     ((handler_listening s \<longrightarrow> registerHandler s \<and> window_defined s) \<and>
      (window_defined s \<and> \<not> isBridgeRegistered s \<longrightarrow> handler_listening s) \<and>
      (isBridgeRegistered s \<longrightarrow> window_defined s))"

definition quiet_until_sent :: "bridge \<Rightarrow> bool" where
  "quiet_until_sent s =
     (iframe_src s \<noteq> [] \<longrightarrow> isBridgeRegistered s \<or> isBridgeRegistrationSent s)"

definition consistent :: "bridge \<Rightarrow> bool" where
  "consistent s = (one_task s \<and> handler_ok s \<and> quiet_until_sent s)"

definition head_is_registration :: "bridge \<Rightarrow> bool" where
  "head_is_registration s =
     (\<not> window_defined s \<or> isBridgeRegistered s \<or> isBridgeRegistrationSent s \<or>
      (sendQueue s \<noteq> [] \<and> is_registration (hd (sendQueue s))))"

section \<open>Concrete inputs\<close>

text \<open>
  The theorems below hold for every platform. To apply them to concrete runs, here is one:
  \<^verbatim>\<open>JSON.parse\<close> and \<^verbatim>\<open>JSON.stringify\<close> tabulated on the two payloads the examples
  use. On the malformed text \<^verbatim>\<open>{nope\<close> the table has no entry, as \<^verbatim>\<open>JSON.parse\<close>
  throws there; on \<^verbatim>\<open>undefined\<close> the second table has none, as \<^verbatim>\<open>JSON.stringify\<close>
  returns \<^verbatim>\<open>undefined\<close> there.
\<close>

definition demo_JSON :: platform where
  \<open>demo_JSON =
     \<lparr>JSON_parse = map_of
        [(''{"token":"abc"}'', Obj [(''token'', Str ''abc'')]),
         (''{"n":1}'', Obj [(''n'', Num 1)])],
      JSON_stringify = map_of
        [(Obj [(''token'', Str ''abc'')], ''{"token":"abc"}''),
         (Obj [(''n'', Num 1)], ''{"n":1}'')]\<rparr>\<close>

text \<open>Three series of random draws, and the events made from them.\<close>

definition draw_a :: entropy where
  "draw_a = Entropy 0x1a2b 0x3c4d 0x5e6f 0x7081 0x92a3 0xb4c5 0xd6e7 0xf809"

definition draw_b :: entropy where
  "draw_b = Entropy 0x0001 0x0002 0x0003 0x0004 0x0005 0x0006 0x0007 0x0008"

definition draw_c :: entropy where
  "draw_c = Entropy 0xcafe 0x0bad 0xf00d 0x1234 0x5678 0x9abc 0xdef0 0x4242"

definition registration :: "entropy \<Rightarrow> event" where
  "registration rnd =
     \<lparr>evt_name = REGISTRATION_EVENT_NAME, evt_data = Undefined, evt_id = generateId rnd\<rparr>"

definition ping :: event where
  "ping = \<lparr>evt_name = ''ping'', evt_data = Obj [(''n'', Num 1)], evt_id = generateId draw_b\<rparr>"

definition pong :: event where
  "pong = \<lparr>evt_name = ''pong'', evt_data = Null, evt_id = generateId draw_c\<rparr>"

text \<open>
  A bridge in a browser after \<^verbatim>\<open>send('ping', {n: 1})\<close>, before the first tick, and the
  same with a second registration event sent by the application.
\<close>

definition fresh_with_ping :: bridge where
  "fresh_with_ping = send ''ping'' (Obj [(''n'', Num 1)]) draw_b (construct True False draw_a)"

definition fresh_with_duplicate :: bridge where
  "fresh_with_duplicate = send REGISTRATION_EVENT_NAME Undefined draw_c fresh_with_ping"

text \<open>
  A bridge constructed where no window exists (the constructor then enqueues nothing),
  after \<^verbatim>\<open>send('ping', {n: 1})\<close>.
\<close>

definition windowless_with_ping :: bridge where
  "windowless_with_ping = send ''ping'' (Obj [(''n'', Num 1)]) draw_b (construct False False draw_a)"

text \<open>
  The same bridge after the application has also sent an event with the registration
  name, and after it has sent two of them.
\<close>

definition windowless_with_registration :: bridge where
  "windowless_with_registration =
     send REGISTRATION_EVENT_NAME Undefined draw_c windowless_with_ping"

definition windowless_with_duplicate :: bridge where
  "windowless_with_duplicate =
     send REGISTRATION_EVENT_NAME Undefined draw_a windowless_with_registration"

text \<open>
  A registered bridge with one event waiting: the first tick delivered the registration
  event, the host replied, and the application sent \<^verbatim>\<open>ping\<close>.
\<close>

definition registered_with_ping :: bridge where
  \<open>registered_with_ping =
     run demo_JSON
       [Tick, HostSend REGISTRATION_EVENT_NAME (Some ''{"token":"abc"}''),
        Send ''ping'' (Obj [(''n'', Num 1)]) draw_b]
       (construct True False draw_a)\<close>

text \<open>That bridge after the tick that delivers \<^verbatim>\<open>ping\<close>.\<close>

definition delivered_ping :: bridge where
  "delivered_ping = after (tick demo_JSON registered_with_ping)"

text \<open>
  A run in which the host replies to the registration twice, once before and once after
  the tick that detaches the handler.
\<close>

definition reply_tick_reply :: "op list" where
  \<open>reply_tick_reply =
     [Tick, HostSend REGISTRATION_EVENT_NAME (Some ''{"token":"abc"}''),
      Send ''ping'' (Obj [(''n'', Num 1)]) draw_b, Tick,
      HostSend REGISTRATION_EVENT_NAME (Some ''{"token":"abc"}'')]\<close>

text \<open>A run in which it replies twice while the queue is empty.\<close>

definition reply_twice :: "op list" where
  "reply_twice =
     [Tick, HostSend REGISTRATION_EVENT_NAME None, Tick, HostSend REGISTRATION_EVENT_NAME None]"

section \<open>The operations in closed form\<close>

subsection \<open>Inbound notifications\<close>

lemma createEvent_eq:
  "createEvent P t n d s =
     (\<lparr>event_type = t, detail_name = n, detail_data = parsed_data P d\<rparr>,
      s\<lparr>console := console s @ parse_errors P d\<rparr>)"
proof (cases d)
  case None
  then show ?thesis by (simp add: createEvent_def parsed_data_def parse_errors_def)
next
  case (Some raw)
  show ?thesis
  proof (cases "raw = []")
    case True
    with Some show ?thesis by (simp add: createEvent_def parsed_data_def parse_errors_def)
  next
    case False
    with Some show ?thesis
      by (cases "JSON_parse P raw") (simp_all add: createEvent_def parsed_data_def parse_errors_def)
  qed
qed

lemma registerHandler_call_eq:
  "registerHandler_call P evt s =
     (if detail_name evt = REGISTRATION_EVENT_NAME then
        s\<lparr>isBridgeRegistered := True,
          storage := assign_props (storage s)
                       (own_props (if truthy (detail_data evt) then detail_data evt else Obj [])),
          console := console s @ parse_errors P (JSON_stringify P (detail_data evt)),
          dispatched := dispatched s @ [registered_event P evt]\<rparr>
      else s)"
  by (simp add: registerHandler_call_def createEvent_eq notify_def registered_event_def Let_def)

lemma exposed_send_eq:
  "exposed_send P n d s =
     (let evt = \<lparr>event_type = BRIDGE_SEND_EVENT, detail_name = n, detail_data = parsed_data P d\<rparr>;
          s1 = s\<lparr>console := console s @ parse_errors P d @ debug_trace n (parsed_data P d) s,
                 dispatched := dispatched s @ [evt]\<rparr>
      in if handler_listening s then registerHandler_call P evt s1 else s1)"
  by (simp add: exposed_send_def createEvent_eq dispatchEvent_def notify_def debug_trace_def Let_def)

lemma exposed_send_unchanged:
  "timers (exposed_send P n d s) = timers s"
  "interval (exposed_send P n d s) = interval s"
  "handler_listening (exposed_send P n d s) = handler_listening s"
  "registerHandler (exposed_send P n d s) = registerHandler s"
  "window_defined (exposed_send P n d s) = window_defined s"
  "isBridgeRegistrationSent (exposed_send P n d s) = isBridgeRegistrationSent s"
  "iframe_src (exposed_send P n d s) = iframe_src s"
  "sendQueue (exposed_send P n d s) = sendQueue s"
  "exposed_storage (exposed_send P n d s) = exposed_storage s"
  "app_listeners (exposed_send P n d s) = app_listeners s"
  "timer_seq (exposed_send P n d s) = timer_seq s"
  "debug (exposed_send P n d s) = debug s"
  by (simp_all add: exposed_send_eq registerHandler_call_eq Let_def)

lemma exposed_send_registered:
  "isBridgeRegistered (exposed_send P n d s) =
     (isBridgeRegistered s \<or> (handler_listening s \<and> n = REGISTRATION_EVENT_NAME))"
  by (simp add: exposed_send_eq registerHandler_call_eq Let_def)

lemma exposed_send_dispatched:
  "dispatched (exposed_send P n d s) =
     dispatched s @
     \<lparr>event_type = BRIDGE_SEND_EVENT, detail_name = n, detail_data = parsed_data P d\<rparr> #
     (if handler_listening s \<and> n = REGISTRATION_EVENT_NAME
      then [registered_event P
              \<lparr>event_type = BRIDGE_SEND_EVENT, detail_name = n, detail_data = parsed_data P d\<rparr>]
      else [])"
  by (simp add: exposed_send_eq registerHandler_call_eq Let_def)

lemma exposed_send_console:
  "console (exposed_send P n d s) =
     console s @ parse_errors P d @ debug_trace n (parsed_data P d) s @
     (if handler_listening s \<and> n = REGISTRATION_EVENT_NAME
      then parse_errors P (JSON_stringify P (parsed_data P d)) else [])"
  by (simp add: exposed_send_eq registerHandler_call_eq Let_def)

lemma pull_fields:
  "sendQueue (snd (pullOutDataById i s)) = sendQueue s"
  "window_defined (snd (pullOutDataById i s)) = window_defined s"
  "isBridgeRegistered (snd (pullOutDataById i s)) = isBridgeRegistered s"
  "isBridgeRegistrationSent (snd (pullOutDataById i s)) = isBridgeRegistrationSent s"
  "handler_listening (snd (pullOutDataById i s)) = handler_listening s"
  "registerHandler (snd (pullOutDataById i s)) = registerHandler s"
  "iframe_src (snd (pullOutDataById i s)) = iframe_src s"
  "dispatched (snd (pullOutDataById i s)) = dispatched s"
  "timers (snd (pullOutDataById i s)) = timers s"
  "interval (snd (pullOutDataById i s)) = interval s"
  by (simp_all add: pullOutDataById_def Let_def)

subsection \<open>Sending and listening\<close>

lemma send_fields:
  "sendQueue (send n d r s) = sendQueue s @ [\<lparr>evt_name = n, evt_data = d, evt_id = generateId r\<rparr>]"
  "window_defined (send n d r s) = window_defined s"
  "isBridgeRegistered (send n d r s) = isBridgeRegistered s"
  "isBridgeRegistrationSent (send n d r s) = isBridgeRegistrationSent s"
  "handler_listening (send n d r s) = handler_listening s"
  "registerHandler (send n d r s) = registerHandler s"
  "iframe_src (send n d r s) = iframe_src s"
  "dispatched (send n d r s) = dispatched s"
  "exposed_storage (send n d r s) = exposed_storage s"
  "debug (send n d r s) = debug s"
  by (simp_all add: send_def utilizeQueue_def Let_def)

lemma send_timers:
  "timers (send n d r s) =
     (if (case interval s of None \<Rightarrow> False | Some h \<Rightarrow> h \<noteq> 0) then timers s
      else timers s @ [Suc (timer_seq s)])"
  "interval (send n d r s) =
     (if (case interval s of None \<Rightarrow> False | Some h \<Rightarrow> h \<noteq> 0) then interval s
      else Some (Suc (timer_seq s)))"
  by (simp_all add: send_def utilizeQueue_def Let_def)

lemma listener_fields:
  "sendQueue (on_event n h s) = sendQueue s"
  "window_defined (on_event n h s) = window_defined s"
  "isBridgeRegistered (on_event n h s) = isBridgeRegistered s"
  "isBridgeRegistrationSent (on_event n h s) = isBridgeRegistrationSent s"
  "handler_listening (on_event n h s) = handler_listening s"
  "registerHandler (on_event n h s) = registerHandler s"
  "iframe_src (on_event n h s) = iframe_src s"
  "dispatched (on_event n h s) = dispatched s"
  "timers (on_event n h s) = timers s"
  "interval (on_event n h s) = interval s"
  "sendQueue (remove_event n h s) = sendQueue s"
  "window_defined (remove_event n h s) = window_defined s"
  "isBridgeRegistered (remove_event n h s) = isBridgeRegistered s"
  "isBridgeRegistrationSent (remove_event n h s) = isBridgeRegistrationSent s"
  "handler_listening (remove_event n h s) = handler_listening s"
  "registerHandler (remove_event n h s) = registerHandler s"
  "iframe_src (remove_event n h s) = iframe_src s"
  "dispatched (remove_event n h s) = dispatched s"
  "timers (remove_event n h s) = timers s"
  "interval (remove_event n h s) = interval s"
  by (simp_all add: on_event_def remove_event_def)

lemma construct_fields:
  "sendQueue (construct w dbg rnd) = (if w then [registration rnd] else [])"
  "window_defined (construct w dbg rnd) = w"
  "isBridgeRegistered (construct w dbg rnd) = False"
  "isBridgeRegistrationSent (construct w dbg rnd) = False"
  "handler_listening (construct w dbg rnd) = w"
  "registerHandler (construct w dbg rnd) = w"
  "timers (construct w dbg rnd) = (if w then [1] else [])"
  "interval (construct w dbg rnd) = (if w then Some 1 else None)"
  "iframe_src (construct w dbg rnd) = []"
  "dispatched (construct w dbg rnd) = []"
  "debug (construct w dbg rnd) = dbg"
  "exposed_storage (construct w dbg rnd) = Map.empty"
  by (simp_all add: construct_def registerBridge_def exposeBridge_def on_registerHandler_def
      send_fields send_timers registration_def)

subsection \<open>The tick\<close>

lemma after_simps [simp]: "after (Inr s) = s" "after (Inl (err, s)) = s"
  by (simp_all add: after_def)

lemma deliver_eq:
  "deliver P e s =
     (let s1 = s\<lparr>console := console s @
                  (if debug s
                   then [ConsoleLog (''JS invokes bridge '' @ wrapSchema (evt_name e) (evt_id e)) (evt_data e)]
                   else [])\<rparr>
      in if window_defined s
         then Inr (s1\<lparr>iframe_src := iframe_src s @ [wrapSchema (evt_name e) (evt_id e)],
                      exposed_storage := (exposed_storage s)(evt_id e \<mapsto> stringified P (evt_data e))\<rparr>)
         else Inl (TypeError ''Cannot read properties of undefined'', s1))"
  by (simp add: deliver_def addData_def Let_def)

lemma after_deliver_unchanged:
  "timers (after (deliver P e s)) = timers s"
  "interval (after (deliver P e s)) = interval s"
  "handler_listening (after (deliver P e s)) = handler_listening s"
  "registerHandler (after (deliver P e s)) = registerHandler s"
  "window_defined (after (deliver P e s)) = window_defined s"
  "isBridgeRegistrationSent (after (deliver P e s)) = isBridgeRegistrationSent s"
  "isBridgeRegistered (after (deliver P e s)) = isBridgeRegistered s"
  "sendQueue (after (deliver P e s)) = sendQueue s"
  "dispatched (after (deliver P e s)) = dispatched s"
  "storage (after (deliver P e s)) = storage s"
  "app_listeners (after (deliver P e s)) = app_listeners s"
  "timer_seq (after (deliver P e s)) = timer_seq s"
  "debug (after (deliver P e s)) = debug s"
  by (simp_all add: deliver_eq Let_def)

lemma after_deliver_src:
  "iframe_src (after (deliver P e s)) =
     (if window_defined s then iframe_src s @ [wrapSchema (evt_name e) (evt_id e)] else iframe_src s)"
  by (simp add: deliver_eq Let_def)

lemma after_deliver_storage:
  "exposed_storage (after (deliver P e s)) =
     (if window_defined s then (exposed_storage s)(evt_id e \<mapsto> stringified P (evt_data e))
      else exposed_storage s)"
  by (simp add: deliver_eq Let_def)

lemma detached_fields:
  "timers (detached s) = timers s"
  "interval (detached s) = interval s"
  "window_defined (detached s) = window_defined s"
  "isBridgeRegistrationSent (detached s) = isBridgeRegistrationSent s"
  "isBridgeRegistered (detached s) = isBridgeRegistered s"
  "sendQueue (detached s) = sendQueue s"
  "dispatched (detached s) = dispatched s"
  "iframe_src (detached s) = iframe_src s"
  "exposed_storage (detached s) = exposed_storage s"
  "debug (detached s) = debug s"
  "registerHandler (detached s) = False"
  "handler_listening (detached s) = (handler_listening s \<and> \<not> (registerHandler s \<and> window_defined s))"
  by (auto simp: detached_def remove_registerHandler_def)

text \<open>The four cases of a tick.\<close>

lemma tick_empty:
  "sendQueue s = [] \<Longrightarrow>
   tick P s = Inr (s\<lparr>timers := (case interval s of None \<Rightarrow> timers s | Some h \<Rightarrow> removeAll h (timers s)),
                     interval := None\<rparr>)"
  by (simp add: tick_def)

lemma tick_registered:
  "isBridgeRegistered s \<Longrightarrow> sendQueue s = e # rest \<Longrightarrow>
   tick P s = deliver P e ((detached s)\<lparr>sendQueue := rest\<rparr>)"
  by (simp add: tick_def next_event_def remove_registerHandler_def detached_def)

lemma tick_unsent:
  "\<not> isBridgeRegistered s \<Longrightarrow> \<not> isBridgeRegistrationSent s \<Longrightarrow> sendQueue s \<noteq> [] \<Longrightarrow>
   tick P s =
     (case filter (\<lambda>e. evt_name e = REGISTRATION_EVENT_NAME) (sendQueue s) of
        [] \<Rightarrow> Inr (unsent_tick s)
      | r # _ \<Rightarrow> deliver P r (unsent_tick s))"
  by (simp add: tick_def next_event_def lodash_remove_def unsent_tick_def split: list.splits)

lemma tick_waiting:
  "\<not> isBridgeRegistered s \<Longrightarrow> isBridgeRegistrationSent s \<Longrightarrow> sendQueue s \<noteq> [] \<Longrightarrow>
   tick P s = Inr s"
  by (simp add: tick_def next_event_def)

lemma tick_eq:
  "tick P s =
     (if sendQueue s = [] then
        Inr (s\<lparr>timers := (case interval s of None \<Rightarrow> timers s | Some h \<Rightarrow> removeAll h (timers s)),
               interval := None\<rparr>)
      else if isBridgeRegistered s then
        deliver P (hd (sendQueue s)) ((detached s)\<lparr>sendQueue := tl (sendQueue s)\<rparr>)
      else if \<not> isBridgeRegistrationSent s then
        (case filter (\<lambda>e. evt_name e = REGISTRATION_EVENT_NAME) (sendQueue s) of
           [] \<Rightarrow> Inr (unsent_tick s)
         | r # _ \<Rightarrow> deliver P r (unsent_tick s))
      else Inr s)"
proof (cases "sendQueue s")
  case Nil
  then show ?thesis by (simp add: tick_empty)
next
  case (Cons e rest)
  then have ne: "sendQueue s \<noteq> []" by simp
  show ?thesis
  proof (cases "isBridgeRegistered s")
    case True
    with Cons show ?thesis by (simp add: tick_registered)
  next
    case False
    note unreg = this
    show ?thesis
    proof (cases "isBridgeRegistrationSent s")
      case True
      with unreg ne show ?thesis by (simp add: tick_waiting)
    next
      case False
      with unreg ne show ?thesis by (simp add: tick_unsent)
    qed
  qed
qed

lemma tick_keeps_flags:
  "isBridgeRegistered (after (tick P s)) = isBridgeRegistered s"
  "isBridgeRegistrationSent s \<Longrightarrow> isBridgeRegistrationSent (after (tick P s))"
  by (cases "filter (\<lambda>e. evt_name e = REGISTRATION_EVENT_NAME) (sendQueue s)";
      simp add: tick_eq after_deliver_unchanged detached_fields unsent_tick_def)+

lemma tick_keeps_dispatched: "dispatched (after (tick P s)) = dispatched s"
  by (cases "filter (\<lambda>e. evt_name e = REGISTRATION_EVENT_NAME) (sendQueue s)";
      simp add: tick_eq after_deliver_unchanged detached_fields unsent_tick_def)

lemma tick_fields:
  "handler_listening (after (tick P s)) =
     (if sendQueue s \<noteq> [] \<and> isBridgeRegistered s then handler_listening (detached s)
      else handler_listening s)"
  "window_defined (after (tick P s)) = window_defined s"
  "timers (after (tick P s)) =
     (if sendQueue s = []
      then (case interval s of None \<Rightarrow> timers s | Some h \<Rightarrow> removeAll h (timers s))
      else timers s)"
  by (cases "filter (\<lambda>e. evt_name e = REGISTRATION_EVENT_NAME) (sendQueue s)";
      simp add: tick_eq after_deliver_unchanged detached_fields unsent_tick_def)+

lemma tick_listening: "handler_listening (after (tick P s)) \<Longrightarrow> handler_listening s"
  by (simp add: tick_fields detached_fields split: if_splits)

lemmas eval_fields = tick_eq after_deliver_unchanged after_deliver_src after_deliver_storage
  detached_fields unsent_tick_def send_fields send_timers construct_fields
  exposed_send_unchanged exposed_send_registered listener_fields pull_fields

section \<open>Invariants\<close>

lemma one_task_tick: "one_task s \<Longrightarrow> one_task (after (tick P s))"
  unfolding tick_eq one_task_def
  by (cases "filter (\<lambda>e. evt_name e = REGISTRATION_EVENT_NAME) (sendQueue s)"; cases "interval s")
     (simp_all add: after_deliver_unchanged detached_fields unsent_tick_def)

lemma handler_ok_tick: "handler_ok s \<Longrightarrow> handler_ok (after (tick P s))"
  unfolding tick_eq handler_ok_def
  by (cases "filter (\<lambda>e. evt_name e = REGISTRATION_EVENT_NAME) (sendQueue s)")
     (auto simp add: after_deliver_unchanged detached_fields unsent_tick_def)

lemma quiet_tick: "quiet_until_sent s \<Longrightarrow> quiet_until_sent (after (tick P s))"
  unfolding tick_eq quiet_until_sent_def
  by (cases "filter (\<lambda>e. evt_name e = REGISTRATION_EVENT_NAME) (sendQueue s)")
     (auto simp add: after_deliver_unchanged after_deliver_src detached_fields unsent_tick_def)

lemma one_task_step: "one_task s \<Longrightarrow> one_task (step P x s)"
proof (cases x)
  case (Send n d r)
  assume "one_task s"
  then show ?thesis using Send
    by (cases "interval s") (simp_all add: one_task_def send_timers)
next
  case Tick
  assume "one_task s"
  then show ?thesis using Tick one_task_tick[of s P] by simp
qed (simp_all add: one_task_def listener_fields pull_fields exposed_send_unchanged)

lemma handler_ok_step: "handler_ok s \<Longrightarrow> handler_ok (step P x s)"
proof (cases x)
  case Tick
  assume "handler_ok s"
  then show ?thesis using Tick handler_ok_tick[of s P] by simp
next
  case (HostSend n d)
  assume "handler_ok s"
  then show ?thesis using HostSend
    by (auto simp: handler_ok_def exposed_send_unchanged exposed_send_registered)
qed (auto simp add: handler_ok_def listener_fields pull_fields send_fields)

lemma quiet_step: "quiet_until_sent s \<Longrightarrow> quiet_until_sent (step P x s)"
proof (cases x)
  case Tick
  assume "quiet_until_sent s"
  then show ?thesis using Tick quiet_tick[of s P] by simp
next
  case (HostSend n d)
  assume "quiet_until_sent s"
  then show ?thesis using HostSend
    by (auto simp: quiet_until_sent_def exposed_send_unchanged exposed_send_registered)
qed (auto simp add: quiet_until_sent_def listener_fields pull_fields send_fields)

lemma consistent_construct: "consistent (construct w dbg rnd)"
  by (simp add: consistent_def one_task_def handler_ok_def quiet_until_sent_def construct_fields)

lemma consistent_step: "consistent s \<Longrightarrow> consistent (step P x s)"
  by (simp add: consistent_def one_task_step handler_ok_step quiet_step)

lemma consistent_run: "consistent s \<Longrightarrow> consistent (run P xs s)"
  by (induction xs arbitrary: s) (simp_all add: consistent_step)

lemma reachable_run: "reachable P (run P ops (construct w dbg rnd))"
  unfolding reachable_def by blast

lemma reachable_consistent: "reachable P s \<Longrightarrow> consistent s"
  by (auto simp: reachable_def consistent_run consistent_construct)

lemma handler_ok_run: "handler_ok s \<Longrightarrow> handler_ok (run P ops s)"
  by (induction ops arbitrary: s) (simp_all add: handler_ok_step)

subsection \<open>The registration event stays in front\<close>

lemma tick_sets_sent:
  "\<not> isBridgeRegistered s \<Longrightarrow> sendQueue s \<noteq> [] \<Longrightarrow>
   isBridgeRegistrationSent (after (tick P s))"
  by (cases "filter (\<lambda>e. evt_name e = REGISTRATION_EVENT_NAME) (sendQueue s)";
      simp add: tick_eq after_deliver_unchanged unsent_tick_def)

lemma head_tick: "head_is_registration s \<Longrightarrow> head_is_registration (after (tick P s))"
  unfolding head_is_registration_def
  using tick_sets_sent[where s=s and P=P] tick_keeps_flags(1)[where s=s and P=P]
    tick_keeps_flags(2)[where s=s and P=P] tick_fields(2)[where s=s and P=P]
  by blast

lemma head_step: "head_is_registration s \<Longrightarrow> head_is_registration (step P x s)"
proof (cases x)
  case Tick
  assume "head_is_registration s"
  then show ?thesis using Tick head_tick[of s P] by simp
next
  case (Send n d r)
  assume "head_is_registration s"
  then show ?thesis using Send
    by (auto simp: head_is_registration_def send_fields)
next
  case (HostSend n d)
  assume "head_is_registration s"
  then show ?thesis using HostSend
    by (auto simp: head_is_registration_def exposed_send_unchanged exposed_send_registered)
qed (auto simp: head_is_registration_def listener_fields pull_fields)

lemma head_construct: "head_is_registration (construct w dbg rnd)"
  by (simp add: head_is_registration_def construct_fields is_registration_def registration_def)

lemma head_run: "head_is_registration s \<Longrightarrow> head_is_registration (run P xs s)"
  by (induction xs arbitrary: s) (simp_all add: head_step)

text \<open>
  In a run of a bridge with a window the registration event is at the head of the queue
  until the tick that takes it: the constructor enqueues it first.
\<close>

lemma registration_event_at_head:
  assumes "reachable P s" and "window_defined s"
    and "\<not> isBridgeRegistered s" and "\<not> isBridgeRegistrationSent s"
  shows "sendQueue s \<noteq> [] \<and> is_registration (hd (sendQueue s))"
proof -
  have "head_is_registration s"
    using assms(1) by (auto simp: reachable_def head_run head_construct)
  then show ?thesis
    using assms(2-4) by (simp add: head_is_registration_def)
qed

subsection \<open>The flags along a run\<close>

lemma step_keeps_registered:
  "isBridgeRegistered s \<Longrightarrow> isBridgeRegistered (step P x s)"
  by (cases x)
     (simp_all add: send_fields listener_fields pull_fields exposed_send_registered tick_keeps_flags)

lemma step_keeps_sent:
  "isBridgeRegistrationSent s \<Longrightarrow> isBridgeRegistrationSent (step P x s)"
  by (cases x)
     (simp_all add: send_fields listener_fields pull_fields exposed_send_unchanged tick_keeps_flags)

lemma step_keeps_window:
  "window_defined (step P x s) = window_defined s"
  by (cases x)
     (simp_all add: send_fields listener_fields pull_fields exposed_send_unchanged tick_fields)

lemma run_keeps_registered:
  "isBridgeRegistered s \<Longrightarrow> isBridgeRegistered (run P ops s)"
  by (induction ops arbitrary: s) (simp_all add: step_keeps_registered)

lemma run_keeps_sent:
  "isBridgeRegistrationSent s \<Longrightarrow> isBridgeRegistrationSent (run P ops s)"
  by (induction ops arbitrary: s) (simp_all add: step_keeps_sent)

lemma stage_mono:
  assumes "isBridgeRegistered s \<longrightarrow> isBridgeRegistered s'"
    and "isBridgeRegistrationSent s \<longrightarrow> isBridgeRegistrationSent s'"
  shows "stage (registrationState s) \<le> stage (registrationState s')"
  using assms by (simp add: registrationState_def)

subsection \<open>What is delivered comes from the queue\<close>

lemma enqueued_Cons: "enqueued (x # xs) = enqueued [x] @ enqueued xs"
  by (cases x) simp_all

lemma first_match_in_list: "filter p xs = r # rs \<Longrightarrow> r \<in> set xs"
  by (metis filter_is_subset list.set_intros(1) subsetD)

lemma tick_takes_from_queue:
  "set (iframe_src (after (tick P s))) \<union> locator ` set (sendQueue (after (tick P s)))
     \<subseteq> set (iframe_src s) \<union> locator ` set (sendQueue s)"
proof (cases "sendQueue s")
  case Nil
  then show ?thesis by (simp add: tick_eq)
next
  case (Cons e rest)
  note q = this
  show ?thesis
  proof (cases "filter (\<lambda>e. evt_name e = REGISTRATION_EVENT_NAME) (sendQueue s)")
    case Nil
    then show ?thesis
      using q
      by (auto simp: tick_eq after_deliver_unchanged after_deliver_src detached_fields
          unsent_tick_def locator_def)
  next
    case (Cons r rs)
    then have "r \<in> set (sendQueue s)" by (rule first_match_in_list)
    then show ?thesis
      using Cons q
      by (auto simp: tick_eq after_deliver_unchanged after_deliver_src detached_fields
          unsent_tick_def locator_def)
  qed
qed

lemma tick_stores_from_queue:
  "dom (exposed_storage (after (tick P s))) \<union> evt_id ` set (sendQueue (after (tick P s)))
     \<subseteq> dom (exposed_storage s) \<union> evt_id ` set (sendQueue s)"
proof (cases "sendQueue s")
  case Nil
  then show ?thesis by (simp add: tick_eq)
next
  case (Cons e rest)
  note q = this
  show ?thesis
  proof (cases "filter (\<lambda>e. evt_name e = REGISTRATION_EVENT_NAME) (sendQueue s)")
    case Nil
    then show ?thesis
      using q
      by (auto simp: tick_eq after_deliver_unchanged after_deliver_storage detached_fields
          unsent_tick_def)
  next
    case (Cons r rs)
    then have "r \<in> set (sendQueue s)" by (rule first_match_in_list)
    then show ?thesis
      using Cons q
      by (auto simp: tick_eq after_deliver_unchanged after_deliver_storage detached_fields
          unsent_tick_def)
  qed
qed

lemma step_delivers_from_queue:
  "set (iframe_src (step P x s)) \<union> locator ` set (sendQueue (step P x s))
     \<subseteq> set (iframe_src s) \<union> locator ` set (sendQueue s) \<union> locator ` set (enqueued [x])"
proof (cases x)
  case Tick
  then show ?thesis using tick_takes_from_queue[of P s] by auto
qed (auto simp: send_fields listener_fields pull_fields exposed_send_unchanged)

lemma step_stores_from_queue:
  "dom (exposed_storage (step P x s)) \<union> evt_id ` set (sendQueue (step P x s))
     \<subseteq> dom (exposed_storage s) \<union> evt_id ` set (sendQueue s) \<union> evt_id ` set (enqueued [x])"
proof (cases x)
  case Tick
  then show ?thesis using tick_stores_from_queue[of P s] by auto
next
  case (HostPull i)
  then show ?thesis by (auto simp: pull_fields pullOutDataById_def Let_def split: if_splits)
qed (auto simp: send_fields listener_fields exposed_send_unchanged on_event_def remove_event_def)

lemma run_delivers_from_queue:
  "set (iframe_src (run P ops s)) \<union> locator ` set (sendQueue (run P ops s))
     \<subseteq> set (iframe_src s) \<union> locator ` set (sendQueue s) \<union> locator ` set (enqueued ops)"
proof (induction ops arbitrary: s)
  case Nil
  show ?case by simp
next
  case (Cons x xs)
  have "set (iframe_src (run P (x # xs) s)) \<union> locator ` set (sendQueue (run P (x # xs) s))
      \<subseteq> set (iframe_src (step P x s)) \<union> locator ` set (sendQueue (step P x s))
        \<union> locator ` set (enqueued xs)"
    using Cons.IH[of "step P x s"] by simp
  also have "\<dots> \<subseteq> set (iframe_src s) \<union> locator ` set (sendQueue s)
        \<union> locator ` set (enqueued [x]) \<union> locator ` set (enqueued xs)"
    using step_delivers_from_queue[of P x s] by blast
  also have "\<dots> = set (iframe_src s) \<union> locator ` set (sendQueue s)
        \<union> locator ` set (enqueued (x # xs))"
    by (subst (2) enqueued_Cons) auto
  finally show ?case .
qed

lemma run_stores_from_queue:
  "dom (exposed_storage (run P ops s)) \<union> evt_id ` set (sendQueue (run P ops s))
     \<subseteq> dom (exposed_storage s) \<union> evt_id ` set (sendQueue s) \<union> evt_id ` set (enqueued ops)"
proof (induction ops arbitrary: s)
  case Nil
  show ?case by simp
next
  case (Cons x xs)
  have "dom (exposed_storage (run P (x # xs) s)) \<union> evt_id ` set (sendQueue (run P (x # xs) s))
      \<subseteq> dom (exposed_storage (step P x s)) \<union> evt_id ` set (sendQueue (step P x s))
        \<union> evt_id ` set (enqueued xs)"
    using Cons.IH[of "step P x s"] by simp
  also have "\<dots> \<subseteq> dom (exposed_storage s) \<union> evt_id ` set (sendQueue s)
        \<union> evt_id ` set (enqueued [x]) \<union> evt_id ` set (enqueued xs)"
    using step_stores_from_queue[of P x s] by blast
  also have "\<dots> = dom (exposed_storage s) \<union> evt_id ` set (sendQueue s)
        \<union> evt_id ` set (enqueued (x # xs))"
    by (subst (2) enqueued_Cons) auto
  finally show ?case .
qed

subsection \<open>An entry of the exposed storage stays until it is pulled out\<close>

text \<open>
  A tick writes at most one entry, for an event it takes from the queue. Every other
  operation but the retrieval of that very id leaves an entry alone, so what is stored
  under an id is always the data of an event with that id.
\<close>

lemma tick_storage_cases:
  "exposed_storage (after (tick P s)) = exposed_storage s \<or>
   (\<exists>r. r \<in> set (sendQueue s) \<and>
        exposed_storage (after (tick P s)) = (exposed_storage s)(evt_id r \<mapsto> stringified P (evt_data r)))"
proof (cases "sendQueue s")
  case Nil
  then show ?thesis by (simp add: tick_eq)
next
  case (Cons e rest)
  note q = this
  show ?thesis
  proof (cases "filter (\<lambda>e. evt_name e = REGISTRATION_EVENT_NAME) (sendQueue s)")
    case Nil
    then show ?thesis
      using q by (auto simp: tick_eq after_deliver_storage detached_fields unsent_tick_def)
  next
    case (Cons r rs)
    then have "r \<in> set (sendQueue s)" by (rule first_match_in_list)
    then show ?thesis
      using Cons q by (auto simp: tick_eq after_deliver_storage detached_fields unsent_tick_def)
  qed
qed

lemma step_keeps_entry:
  assumes "x \<noteq> HostPull X" and "a \<in> A" and "evt_id a = X"
    and "exposed_storage s X = Some (stringified P (evt_data a))"
  shows "\<exists>a'. a' \<in> A \<union> set (sendQueue s) \<and> evt_id a' = X \<and>
           exposed_storage (step P x s) X = Some (stringified P (evt_data a'))"
proof (cases x)
  case Tick
  show ?thesis
  proof (cases "timers s = []")
    case True
    then show ?thesis using Tick assms by auto
  next
    case False
    then have st: "step P x s = after (tick P s)" using Tick by simp
    from tick_storage_cases[of P s] show ?thesis
    proof
      assume "exposed_storage (after (tick P s)) = exposed_storage s"
      then show ?thesis using st assms by auto
    next
      assume "\<exists>r. r \<in> set (sendQueue s) \<and>
        exposed_storage (after (tick P s)) = (exposed_storage s)(evt_id r \<mapsto> stringified P (evt_data r))"
      then obtain r where r: "r \<in> set (sendQueue s)"
        and upd: "exposed_storage (after (tick P s)) = (exposed_storage s)(evt_id r \<mapsto> stringified P (evt_data r))"
        by blast
      show ?thesis
      proof (cases "evt_id r = X")
        case True
        then show ?thesis using st r upd by auto
      next
        case False
        then show ?thesis using st upd assms by auto
      qed
    qed
  qed
next
  case (HostPull i)
  then have "i \<noteq> X" using assms(1) by simp
  then show ?thesis
    using HostPull assms by (auto simp: pullOutDataById_def Let_def)
qed (insert assms, auto simp: send_fields exposed_send_unchanged on_event_def remove_event_def)

lemma tick_queue: "set (sendQueue (after (tick P s))) \<subseteq> set (sendQueue s)"
proof (cases "sendQueue s")
  case Nil
  then show ?thesis by (simp add: tick_eq)
next
  case (Cons e rest)
  then show ?thesis
    by (cases "filter (\<lambda>e. evt_name e = REGISTRATION_EVENT_NAME) (sendQueue s)")
       (auto simp: tick_eq after_deliver_unchanged detached_fields unsent_tick_def)
qed

lemma step_queue:
  "set (sendQueue (step P x s)) \<subseteq> set (sendQueue s) \<union> set (enqueued [x])"
proof (cases x)
  case Tick
  then show ?thesis using tick_queue[of P s] by auto
qed (auto simp: send_fields listener_fields pull_fields exposed_send_unchanged)

lemma run_queue:
  "set (sendQueue (run P ops s)) \<subseteq> set (sendQueue s) \<union> set (enqueued ops)"
proof (induction ops arbitrary: s)
  case Nil
  show ?case by simp
next
  case (Cons x xs)
  have "set (sendQueue (run P (x # xs) s)) \<subseteq> set (sendQueue (step P x s)) \<union> set (enqueued xs)"
    using Cons.IH[of "step P x s"] by simp
  also have "\<dots> \<subseteq> set (sendQueue s) \<union> set (enqueued [x]) \<union> set (enqueued xs)"
    using step_queue[of P x s] by blast
  also have "\<dots> = set (sendQueue s) \<union> set (enqueued (x # xs))"
    by (subst (2) enqueued_Cons) auto
  finally show ?case .
qed

lemma run_keeps_entry:
  assumes "HostPull X \<notin> set ops" and "a \<in> A" and "evt_id a = X"
    and "exposed_storage s X = Some (stringified P (evt_data a))"
  shows "\<exists>a'. a' \<in> A \<union> set (sendQueue s) \<union> set (enqueued ops) \<and> evt_id a' = X \<and>
           exposed_storage (run P ops s) X = Some (stringified P (evt_data a'))"
  using assms
proof (induction ops arbitrary: s a A)
  case Nil
  then show ?case by auto
next
  case (Cons x xs)
  have x: "x \<noteq> HostPull X" and xs: "HostPull X \<notin> set xs"
    using Cons.prems(1) by auto
  obtain a1 where a1: "a1 \<in> A \<union> set (sendQueue s)" "evt_id a1 = X"
    "exposed_storage (step P x s) X = Some (stringified P (evt_data a1))"
    using step_keeps_entry[OF x Cons.prems(2-4)] by blast
  obtain a' where a': "a' \<in> (A \<union> set (sendQueue s)) \<union> set (sendQueue (step P x s)) \<union> set (enqueued xs)"
    "evt_id a' = X"
    "exposed_storage (run P xs (step P x s)) X = Some (stringified P (evt_data a'))"
    using Cons.IH[OF xs a1] by blast
  have "a' \<in> A \<union> set (sendQueue s) \<union> (set (enqueued [x]) \<union> set (enqueued xs))"
    using a'(1) step_queue[of P x s] by blast
  then have "a' \<in> A \<union> set (sendQueue s) \<union> set (enqueued (x # xs))"
    by (subst enqueued_Cons) simp
  then show ?case using a'(2,3) by auto
qed

subsection \<open>The concrete states\<close>

lemma fresh_with_ping_fields:
  "window_defined fresh_with_ping"
  "\<not> isBridgeRegistered fresh_with_ping"
  "\<not> isBridgeRegistrationSent fresh_with_ping"
  "sendQueue fresh_with_ping = [registration draw_a, ping]"
  "iframe_src fresh_with_ping = []"
  by (simp_all add: fresh_with_ping_def send_fields construct_fields ping_def)

lemma fresh_with_duplicate_fields:
  "window_defined fresh_with_duplicate"
  "\<not> isBridgeRegistered fresh_with_duplicate"
  "\<not> isBridgeRegistrationSent fresh_with_duplicate"
  "sendQueue fresh_with_duplicate = [registration draw_a, ping, registration draw_c]"
  "iframe_src fresh_with_duplicate = []"
  by (simp_all add: fresh_with_duplicate_def send_fields fresh_with_ping_fields registration_def)

lemma windowless_with_ping_fields:
  "\<not> window_defined windowless_with_ping"
  "\<not> isBridgeRegistered windowless_with_ping"
  "\<not> isBridgeRegistrationSent windowless_with_ping"
  "sendQueue windowless_with_ping = [ping]"
  "iframe_src windowless_with_ping = []"
  "timers windowless_with_ping = [1]"
  by (simp_all add: windowless_with_ping_def send_fields send_timers construct_fields ping_def
      construct_def registerBridge_def exposeBridge_def)

lemma registered_with_ping_fields:
  "window_defined registered_with_ping"
  "isBridgeRegistered registered_with_ping"
  "sendQueue registered_with_ping = [ping]"
  "iframe_src registered_with_ping = [locator (registration draw_a)]"
  "timers registered_with_ping = [1]"
  by (simp_all add: registered_with_ping_def eval_fields registration_def
      REGISTRATION_EVENT_NAME_def ping_def locator_def)

lemma event_kinds:
  "is_registration (registration rnd)" "\<not> is_registration ping" "\<not> is_registration pong"
  by (simp_all add: is_registration_def registration_def ping_def pong_def REGISTRATION_EVENT_NAME_def)

lemma reachable_fresh_with_ping: "reachable P fresh_with_ping"
  using reachable_run[of P "[Send ''ping'' (Obj [(''n'', Num 1)]) draw_b]" True False draw_a]
  by (simp add: fresh_with_ping_def)

lemma reachable_registered_with_ping: "reachable demo_JSON registered_with_ping"
  unfolding registered_with_ping_def by (rule reachable_run)

lemma delivered_ping_fields:
  "tick demo_JSON registered_with_ping = Inr delivered_ping"
  "window_defined delivered_ping"
  "isBridgeRegistered delivered_ping"
  "sendQueue delivered_ping = []"
  "timers delivered_ping = [1]"
  by (simp_all add: delivered_ping_def tick_eq deliver_eq Let_def detached_fields
      registered_with_ping_fields)

lemma windowless_with_registration_fields:
  "\<not> window_defined windowless_with_registration"
  "\<not> isBridgeRegistered windowless_with_registration"
  "\<not> isBridgeRegistrationSent windowless_with_registration"
  "sendQueue windowless_with_registration = [ping, registration draw_c]"
  "iframe_src windowless_with_registration = []"
  "exposed_storage windowless_with_registration = Map.empty"
  by (simp_all add: windowless_with_registration_def windowless_with_ping_def send_fields
      construct_fields ping_def registration_def)

lemma windowless_with_duplicate_fields:
  "\<not> window_defined windowless_with_duplicate"
  "\<not> isBridgeRegistered windowless_with_duplicate"
  "\<not> isBridgeRegistrationSent windowless_with_duplicate"
  "sendQueue windowless_with_duplicate = [ping, registration draw_c, registration draw_a]"
  "iframe_src windowless_with_duplicate = []"
  "exposed_storage windowless_with_duplicate = Map.empty"
  by (simp_all add: windowless_with_duplicate_def send_fields windowless_with_registration_fields
      registration_def)

lemma reachable_windowless_with_registration: "reachable P windowless_with_registration"
  using reachable_run[of P "[Send ''ping'' (Obj [(''n'', Num 1)]) draw_b,
      Send REGISTRATION_EVENT_NAME Undefined draw_c]" False False draw_a]
  by (simp add: windowless_with_registration_def windowless_with_ping_def)

lemma reachable_windowless_with_duplicate: "reachable P windowless_with_duplicate"
  using reachable_run[of P "[Send ''ping'' (Obj [(''n'', Num 1)]) draw_b,
      Send REGISTRATION_EVENT_NAME Undefined draw_c,
      Send REGISTRATION_EVENT_NAME Undefined draw_a]" False False draw_a]
  by (simp add: windowless_with_duplicate_def windowless_with_registration_def windowless_with_ping_def)

lemma distinct_ids:
  "generateId draw_b \<noteq> generateId draw_c"
  "generateId draw_b \<noteq> generateId draw_a"
  "generateId draw_a \<noteq> generateId draw_c"
  by (simp_all add: draw_a_def draw_b_def draw_c_def s4_def hex_digit_def)

section \<open>The transport encoding\<close>

text \<open>
  Claim C9. For every event name and correlation id, \<^verbatim>\<open>_wrapSchema\<close> produces exactly the
  text \<^verbatim>\<open>ww://<eventName>/<correlationId>\<close>; the scheme is the constant \<^verbatim>\<open>ww\<close>.
\<close>

theorem wrapSchema_locator_format:
  "wrapSchema eventName correlationId = ''ww://'' @ eventName @ ''/'' @ correlationId"
  by (simp add: wrapSchema_def PROTOCOL_SCHEMA_def)

section \<open>Registration has priority\<close>

lemma filter_first_match:
  assumes "list_all (\<lambda>e. \<not> p e) pre" and "p r"
  shows "filter p (pre @ r # post) = r # filter p post"
    and "filter (\<lambda>e. \<not> p e) (pre @ r # post) = pre @ filter (\<lambda>e. \<not> p e) post"
  using assms by (induction pre) auto

lemma tick_takes_registration:
  assumes "\<not> isBridgeRegistered s" and "\<not> isBridgeRegistrationSent s"
    and "sendQueue s = pre @ r # post"
    and "list_all (\<lambda>e. \<not> is_registration e) pre" and "is_registration r"
  shows "tick P s = deliver P r (s\<lparr>sendQueue := pre @ filter (\<lambda>e. \<not> is_registration e) post,
                                    isBridgeRegistrationSent := True\<rparr>)"
proof -
  let ?p = "\<lambda>e. evt_name e = REGISTRATION_EVENT_NAME"
  have pre: "list_all (\<lambda>e. \<not> ?p e) pre" and r: "?p r"
    using assms(4,5) by (simp_all add: is_registration_def)
  have ne: "sendQueue s \<noteq> []" using assms(3) by simp
  have taken: "filter ?p (sendQueue s) = r # filter ?p post"
    using filter_first_match(1)[OF pre r] assms(3) by simp
  have left: "filter (\<lambda>e. evt_name e \<noteq> REGISTRATION_EVENT_NAME) (sendQueue s)
                = pre @ filter (\<lambda>e. \<not> is_registration e) post"
    using filter_first_match(2)[OF pre r] assms(3) by (simp add: is_registration_def)
  show ?thesis
    using assms(1,2) ne by (simp add: tick_unsent taken unsent_tick_def left)
qed

text \<open>
  Claim C1 says that in every state in which the bridge is not registered and has not
  sent its registration, a tick on a queue that holds a registration event takes the
  first such event out of the queue and delivers it. Where no window exists there is no
  iframe to deliver through: the application can still send an event with the
  registration name, and the tick then takes it out of the queue, sets the flag and
  throws at \<^verbatim>\<open>setAttribute\<close>. Nothing is delivered or stored. Here it is in a run of a
  bridge constructed without a window.
\<close>

theorem registration_event_not_delivered_without_window:
  "reachable demo_JSON windowless_with_registration \<and>
   \<not> isBridgeRegistered windowless_with_registration \<and>
   \<not> isBridgeRegistrationSent windowless_with_registration \<and>
   sendQueue windowless_with_registration = [ping, registration draw_c] \<and>
   is_registration (registration draw_c) \<and>
   isl (tick demo_JSON windowless_with_registration) \<and>
   sendQueue (after (tick demo_JSON windowless_with_registration)) = [ping] \<and>
   iframe_src (after (tick demo_JSON windowless_with_registration)) = [] \<and>
   exposed_storage (after (tick demo_JSON windowless_with_registration)) = Map.empty"
proof -
  have q: "sendQueue windowless_with_registration = [ping] @ registration draw_c # []"
    by (simp add: windowless_with_registration_fields)
  have t: "tick demo_JSON windowless_with_registration
      = deliver demo_JSON (registration draw_c)
          (windowless_with_registration
             \<lparr>sendQueue := [ping] @ filter (\<lambda>e. \<not> is_registration e) [],
              isBridgeRegistrationSent := True\<rparr>)"
    by (rule tick_takes_registration[OF windowless_with_registration_fields(2,3) q])
       (simp_all add: event_kinds)
  show ?thesis
    by (simp add: t deliver_eq Let_def windowless_with_registration_fields event_kinds
        reachable_windowless_with_registration)
qed

text \<open>
  Claim C1, amended. In every state that has a window, in which the bridge is not
  registered and has not sent its registration, a tick on a queue that holds a
  registration event takes the first such event out of the queue, wherever it stands among
  the ordinary events, and delivers it: its locator goes to the iframe and its data into
  the exposed storage, while every ordinary event stays queued. In a run from construction
  the event stands at the head of the queue and nothing was delivered before, so it is the
  first locator the iframe ever receives.
\<close>

theorem registration_event_delivered_first:
  assumes "window_defined s" and "\<not> isBridgeRegistered s" and "\<not> isBridgeRegistrationSent s"
    and "sendQueue s = pre @ r # post"
    and "list_all (\<lambda>e. \<not> is_registration e) pre" and "is_registration r"
  shows "\<exists>s'. tick P s = Inr s' \<and>
           sendQueue s' = pre @ filter (\<lambda>e. \<not> is_registration e) post \<and>
           iframe_src s' = iframe_src s @ [locator r] \<and>
           exposed_storage s' = (exposed_storage s)(evt_id r \<mapsto> stringified P (evt_data r)) \<and>
           isBridgeRegistrationSent s' \<and>
           (reachable P s \<longrightarrow> pre = [] \<and> iframe_src s' = [locator r])"
proof -
  have quiet: "reachable P s \<longrightarrow> iframe_src s = []"
    using reachable_consistent[of P s] assms(2,3) by (auto simp: consistent_def quiet_until_sent_def)
  have front: "reachable P s \<longrightarrow> pre = []"
  proof
    assume "reachable P s"
    then have h: "is_registration (hd (sendQueue s))"
      using registration_event_at_head assms(1-3) by blast
    show "pre = []"
    proof (cases pre)
      case Nil
      then show ?thesis .
    next
      case (Cons a as)
      then have "hd (sendQueue s) = a" using assms(4) by simp
      moreover have "\<not> is_registration a" using Cons assms(5) by simp
      ultimately show ?thesis using h by simp
    qed
  qed
  show ?thesis
    using assms(1) quiet front
    by (simp add: tick_takes_registration[OF assms(2-6)] deliver_eq locator_def Let_def)
qed

theorem registration_event_delivered_first_witness:
  "\<exists>s'. tick demo_JSON fresh_with_ping = Inr s' \<and>
        sendQueue s' = [ping] \<and> iframe_src s' = [locator (registration draw_a)] \<and>
        exposed_storage s' (evt_id (registration draw_a)) = Some Undefined"
proof -
  have q: "sendQueue fresh_with_ping = [] @ registration draw_a # [ping]"
    by (simp add: fresh_with_ping_fields)
  have "stringified demo_JSON (evt_data (registration draw_a)) = Undefined"
    by (simp add: stringified_def demo_JSON_def registration_def)
  then show ?thesis
    using registration_event_delivered_first[OF fresh_with_ping_fields(1-3) q, of demo_JSON]
      reachable_fresh_with_ping[of demo_JSON]
    by (auto simp: event_kinds)
qed

text \<open>
  Claim C10 says that when, in a state in which the bridge is not registered and has not
  sent its registration, the queue holds two or more registration events, one tick takes
  all of them out of the queue and delivers only the first. Where no window exists the
  tick takes all of them out and delivers none: it throws at \<^verbatim>\<open>setAttribute\<close>. Here it
  is in a run of a bridge constructed without a window.
\<close>

theorem duplicates_not_delivered_without_window:
  "reachable demo_JSON windowless_with_duplicate \<and>
   \<not> isBridgeRegistered windowless_with_duplicate \<and>
   \<not> isBridgeRegistrationSent windowless_with_duplicate \<and>
   sendQueue windowless_with_duplicate = [ping, registration draw_c, registration draw_a] \<and>
   isl (tick demo_JSON windowless_with_duplicate) \<and>
   sendQueue (after (tick demo_JSON windowless_with_duplicate)) = [ping] \<and>
   iframe_src (after (tick demo_JSON windowless_with_duplicate)) = [] \<and>
   exposed_storage (after (tick demo_JSON windowless_with_duplicate)) = Map.empty"
proof -
  have q: "sendQueue windowless_with_duplicate = [ping] @ registration draw_c # [registration draw_a]"
    by (simp add: windowless_with_duplicate_fields)
  have t: "tick demo_JSON windowless_with_duplicate
      = deliver demo_JSON (registration draw_c)
          (windowless_with_duplicate
             \<lparr>sendQueue := [ping] @ filter (\<lambda>e. \<not> is_registration e) [registration draw_a],
              isBridgeRegistrationSent := True\<rparr>)"
    by (rule tick_takes_registration[OF windowless_with_duplicate_fields(2,3) q])
       (simp_all add: event_kinds)
  show ?thesis
    by (simp add: t deliver_eq Let_def windowless_with_duplicate_fields event_kinds
        reachable_windowless_with_duplicate)
qed

text \<open>
  Claim C10, amended. When, in a state that has a window, in which the bridge is not
  registered and has not sent its registration, the queue holds two or more registration
  events, one tick takes all of them out of the queue and delivers only the first. The
  others are dropped: they are no longer queued, this tick writes neither their locator to
  the iframe nor their data to the exposed storage, and whatever any later run delivers or
  stores belongs to an event that is still queued or is enqueued later.
\<close>

theorem duplicate_registration_events_dropped:
  assumes "window_defined s" and "\<not> isBridgeRegistered s" and "\<not> isBridgeRegistrationSent s"
    and "sendQueue s = pre @ r # post"
    and "list_all (\<lambda>e. \<not> is_registration e) pre" and "is_registration r"
    and "d \<in> set post" and "is_registration d"
  shows "\<exists>s'. tick P s = Inr s' \<and>
           sendQueue s' = pre @ filter (\<lambda>e. \<not> is_registration e) post \<and>
           d \<notin> set (sendQueue s') \<and>
           iframe_src s' = iframe_src s @ [locator r] \<and>
           exposed_storage s' = (exposed_storage s)(evt_id r \<mapsto> stringified P (evt_data r)) \<and>
           (\<forall>ops. set (iframe_src (run P ops s'))
                    \<subseteq> set (iframe_src s') \<union> locator ` set (sendQueue s')
                      \<union> locator ` set (enqueued ops)) \<and>
           (\<forall>ops. dom (exposed_storage (run P ops s'))
                    \<subseteq> dom (exposed_storage s') \<union> evt_id ` set (sendQueue s')
                      \<union> evt_id ` set (enqueued ops))"
proof -
  let ?s' = "after (tick P s)"
  have t: "tick P s = deliver P r (s\<lparr>sendQueue := pre @ filter (\<lambda>e. \<not> is_registration e) post,
                                       isBridgeRegistrationSent := True\<rparr>)"
    by (rule tick_takes_registration[OF assms(2-6)])
  have inr: "tick P s = Inr ?s'"
    using assms(1) by (simp add: t deliver_eq Let_def)
  have q: "sendQueue ?s' = pre @ filter (\<lambda>e. \<not> is_registration e) post"
    by (simp add: t after_deliver_unchanged)
  have "d \<notin> set pre"
    using assms(5,8) by (auto simp: list_all_iff)
  then have gone: "d \<notin> set (sendQueue ?s')"
    using assms(8) by (simp add: q)
  have src: "iframe_src ?s' = iframe_src s @ [locator r]"
    using assms(1) by (simp add: t after_deliver_src locator_def)
  have sto: "exposed_storage ?s' = (exposed_storage s)(evt_id r \<mapsto> stringified P (evt_data r))"
    using assms(1) by (simp add: t after_deliver_storage)
  have later_src: "\<forall>ops. set (iframe_src (run P ops ?s'))
                    \<subseteq> set (iframe_src ?s') \<union> locator ` set (sendQueue ?s')
                      \<union> locator ` set (enqueued ops)"
    using run_delivers_from_queue[of P _ ?s'] by blast
  have later_sto: "\<forall>ops. dom (exposed_storage (run P ops ?s'))
                    \<subseteq> dom (exposed_storage ?s') \<union> evt_id ` set (sendQueue ?s')
                      \<union> evt_id ` set (enqueued ops)"
    using run_stores_from_queue[of P _ ?s'] by blast
  show ?thesis
    using inr q gone src sto later_src later_sto by blast
qed

theorem duplicate_registration_events_dropped_witness:
  "\<exists>s'. tick demo_JSON fresh_with_duplicate = Inr s' \<and>
        sendQueue s' = [ping] \<and>
        registration draw_c \<notin> set (sendQueue s') \<and>
        iframe_src s' = [locator (registration draw_a)]"
proof -
  have q: "sendQueue fresh_with_duplicate = [] @ registration draw_a # [ping, registration draw_c]"
    by (simp add: fresh_with_duplicate_fields)
  have dup: "registration draw_c \<in> set [ping, registration draw_c]"
    by simp
  show ?thesis
    using duplicate_registration_events_dropped[OF fresh_with_duplicate_fields(1-3) q _ _ dup,
        of demo_JSON]
    by (auto simp: event_kinds fresh_with_duplicate_fields)
qed

text \<open>
  Without a window the same tick takes the registration events out of the queue and sets
  the flag, and then throws instead of delivering: there is no iframe.
\<close>

lemma tick_throws_without_window:
  assumes "\<not> window_defined s" and "\<not> isBridgeRegistered s" and "\<not> isBridgeRegistrationSent s"
    and "sendQueue s = pre @ r # post"
    and "list_all (\<lambda>e. \<not> is_registration e) pre" and "is_registration r"
  shows "\<exists>err s'. tick P s = Inl (err, s') \<and>
           sendQueue s' = pre @ filter (\<lambda>e. \<not> is_registration e) post \<and>
           iframe_src s' = iframe_src s \<and> exposed_storage s' = exposed_storage s \<and>
           isBridgeRegistrationSent s'"
  using assms(1)
  by (simp add: tick_takes_registration[OF assms(2-6)] deliver_eq Let_def)

section \<open>The registration flag without a registration event\<close>

lemma tick_without_registration_event:
  assumes "\<not> isBridgeRegistered s" and "\<not> isBridgeRegistrationSent s"
    and "sendQueue s \<noteq> []" and "list_all (\<lambda>e. \<not> is_registration e) (sendQueue s)"
  shows "tick P s = Inr (s\<lparr>isBridgeRegistrationSent := True\<rparr>)"
proof -
  have none: "filter (\<lambda>e. evt_name e = REGISTRATION_EVENT_NAME) (sendQueue s) = []"
    using assms(4) by (simp add: is_registration_def filter_empty_conv list_all_iff)
  have all: "filter (\<lambda>e. evt_name e \<noteq> REGISTRATION_EVENT_NAME) (sendQueue s) = sendQueue s"
    using assms(4) by (simp add: is_registration_def list_all_iff)
  show ?thesis
    using assms(1-3) by (simp add: tick_unsent none unsent_tick_def all)
qed

text \<open>
  Claim C4 says that a tick which finds no registration event in a non-empty queue, while
  the bridge is not registered and has not sent its registration, delivers nothing, leaves
  the queue as it is and leaves the registration flag false. The code delivers nothing and
  leaves the queue as it is, but sets the flag: the assignment
  \<^verbatim>\<open>this._isBridgeRegistrationSent = true\<close> follows the call of \<^verbatim>\<open>remove\<close> whether
  or not an event was found (\<open>tick_without_registration_event\<close>). Here it is on a bridge
  constructed without a window after one \<^verbatim>\<open>send\<close>.
\<close>

theorem registration_sent_set_without_delivery:
  "\<not> isBridgeRegistered windowless_with_ping \<and>
   \<not> isBridgeRegistrationSent windowless_with_ping \<and>
   sendQueue windowless_with_ping = [ping] \<and>
   \<not> is_registration ping \<and>
   tick demo_JSON windowless_with_ping
     = Inr (windowless_with_ping\<lparr>isBridgeRegistrationSent := True\<rparr>) \<and>
   sendQueue (step demo_JSON Tick windowless_with_ping) = [ping] \<and>
   iframe_src (step demo_JSON Tick windowless_with_ping) = [] \<and>
   isBridgeRegistrationSent (step demo_JSON Tick windowless_with_ping)"
proof -
  have t: "tick demo_JSON windowless_with_ping
             = Inr (windowless_with_ping\<lparr>isBridgeRegistrationSent := True\<rparr>)"
    by (rule tick_without_registration_event)
       (simp_all add: windowless_with_ping_fields event_kinds)
  show ?thesis
    by (simp add: t windowless_with_ping_fields event_kinds)
qed

section \<open>First in, first out once registered\<close>

lemma registered_step_fifo:
  assumes "isBridgeRegistered s" and "window_defined s"
  shows "iframe_src (step P x s) @ map locator (sendQueue (step P x s))
           = iframe_src s @ map locator (sendQueue s) @ map locator (enqueued [x])"
proof (cases x)
  case Tick
  show ?thesis
  proof (cases "sendQueue s")
    case Nil
    then show ?thesis using Tick by (simp add: tick_eq)
  next
    case (Cons e rest)
    then show ?thesis
      using Tick assms
      by (simp add: tick_eq after_deliver_unchanged after_deliver_src detached_fields locator_def)
  qed
qed (simp_all add: send_fields listener_fields pull_fields exposed_send_unchanged)

lemma registered_run_fifo:
  assumes "isBridgeRegistered s" and "window_defined s"
  shows "iframe_src (run P ops s) @ map locator (sendQueue (run P ops s))
           = iframe_src s @ map locator (sendQueue s) @ map locator (enqueued ops)"
  using assms
proof (induction ops arbitrary: s)
  case Nil
  show ?case by simp
next
  case (Cons x xs)
  have "iframe_src (run P (x # xs) s) @ map locator (sendQueue (run P (x # xs) s))
      = iframe_src (step P x s) @ map locator (sendQueue (step P x s)) @ map locator (enqueued xs)"
    using Cons.IH[of "step P x s"] Cons.prems
    by (simp add: step_keeps_registered step_keeps_window)
  also have "\<dots> = iframe_src s @ map locator (sendQueue s)
        @ map locator (enqueued [x]) @ map locator (enqueued xs)"
    using registered_step_fifo[OF Cons.prems, of P x] by simp
  also have "\<dots> = iframe_src s @ map locator (sendQueue s) @ map locator (enqueued (x # xs))"
    by (subst (2) enqueued_Cons) simp
  finally show ?case .
qed

text \<open>
  Claim C3. Once the bridge is registered, every tick on a non-empty queue takes exactly
  the head of the queue and delivers it, and so, whatever happens afterwards (calls of
  \<^verbatim>\<open>send\<close>, ticks, notifications, listeners, retrievals, in any order), the locators the
  iframe has received followed by those of the events still queued are the earlier ones
  followed by those of the events sent since, in the order of the calls.
\<close>

theorem registered_delivery_is_fifo:
  assumes "reachable P s" and "isBridgeRegistered s"
  shows "iframe_src (run P ops s) @ map locator (sendQueue (run P ops s))
           = iframe_src s @ map locator (sendQueue s) @ map locator (enqueued ops) \<and>
         (\<forall>e rest. sendQueue s = e # rest \<longrightarrow>
            (\<exists>s'. tick P s = Inr s' \<and> sendQueue s' = rest \<and>
                  iframe_src s' = iframe_src s @ [locator e] \<and>
                  exposed_storage s'
                    = (exposed_storage s)(evt_id e \<mapsto> stringified P (evt_data e))))"
proof -
  have w: "window_defined s"
    using reachable_consistent[OF assms(1)] assms(2) by (simp add: consistent_def handler_ok_def)
  have head: "\<exists>s'. tick P s = Inr s' \<and> sendQueue s' = rest \<and>
                  iframe_src s' = iframe_src s @ [locator e] \<and>
                  exposed_storage s' = (exposed_storage s)(evt_id e \<mapsto> stringified P (evt_data e))"
    if "sendQueue s = e # rest" for e rest
    using that assms(2) w
    by (simp add: tick_eq deliver_eq detached_fields locator_def Let_def)
  show ?thesis
    using registered_run_fifo[OF assms(2) w] head by blast
qed

theorem registered_delivery_is_fifo_witness:
  "iframe_src (run demo_JSON [Send ''pong'' Null draw_c, Tick, Tick] registered_with_ping)
     = [locator (registration draw_a), locator ping, locator pong] \<and>
   sendQueue (run demo_JSON [Send ''pong'' Null draw_c, Tick, Tick] registered_with_ping) = [] \<and>
   (\<exists>s'. tick demo_JSON registered_with_ping = Inr s' \<and> sendQueue s' = [] \<and>
      iframe_src s' = [locator (registration draw_a), locator ping])"
proof -
  let ?ops = "[Send ''pong'' Null draw_c, Tick, Tick]"
  note fifo = registered_delivery_is_fifo[OF reachable_registered_with_ping
      registered_with_ping_fields(2), of ?ops]
  have q: "sendQueue (run demo_JSON ?ops registered_with_ping) = []"
    by (simp add: eval_fields registered_with_ping_fields)
  have "iframe_src (run demo_JSON ?ops registered_with_ping)
            @ map locator (sendQueue (run demo_JSON ?ops registered_with_ping))
          = iframe_src registered_with_ping @ map locator (sendQueue registered_with_ping)
            @ map locator (enqueued ?ops)"
    using fifo by (rule conjunct1)
  then have src: "iframe_src (run demo_JSON ?ops registered_with_ping)
          = [locator (registration draw_a), locator ping, locator pong]"
    unfolding q by (simp add: registered_with_ping_fields pong_def del: run.simps)
  have "sendQueue registered_with_ping = ping # [] \<longrightarrow>
      (\<exists>s'. tick demo_JSON registered_with_ping = Inr s' \<and> sendQueue s' = [] \<and>
         iframe_src s' = iframe_src registered_with_ping @ [locator ping] \<and>
         exposed_storage s' = (exposed_storage registered_with_ping)
           (evt_id ping \<mapsto> stringified demo_JSON (evt_data ping)))"
    using fifo by blast
  then have "\<exists>s'. tick demo_JSON registered_with_ping = Inr s' \<and> sendQueue s' = [] \<and>
      iframe_src s' = [locator (registration draw_a), locator ping]"
    by (auto simp add: registered_with_ping_fields)
  then show ?thesis using q src by simp
qed

section \<open>Retrieval by the host\<close>

lemma next_event_registered:
  "isBridgeRegistered s \<Longrightarrow> sendQueue s = e # rest \<Longrightarrow> fst (next_event s) = Some e"
  by (simp add: next_event_def remove_registerHandler_def)

text \<open>
  Claim C6. Let a tick deliver an event, and let anything happen afterwards except a
  retrieval of the event's id: other events are sent and delivered, other ids are pulled
  out. Then the first call of \<^verbatim>\<open>pullOutDataById\<close> with the event's id returns what
  \<^verbatim>\<open>JSON.stringify\<close> made of the data of a delivered event with that id, which is this
  event's data when no other queued or sent event has the same id. The call removes the
  entry and no other. A second call right after it returns \<^verbatim>\<open>undefined\<close>, and so does
  one after any further operations, as long as no event with the same id is queued or
  sent. Neither call has a failing branch.
\<close>

theorem pullOutDataById_at_most_once:
  assumes "sendQueue s \<noteq> []" and "fst (next_event s) = Some e" and "tick P s = Inr s1"
    and "HostPull (evt_id e) \<notin> set ops"
  shows "(\<exists>a. a \<in> insert e (set (sendQueue s1) \<union> set (enqueued ops)) \<and> evt_id a = evt_id e \<and>
            fst (pullOutDataById (evt_id e) (run P ops s1)) = stringified P (evt_data a)) \<and>
         (evt_id e \<notin> evt_id ` (set (sendQueue s1) \<union> set (enqueued ops)) \<longrightarrow>
            fst (pullOutDataById (evt_id e) (run P ops s1)) = stringified P (evt_data e)) \<and>
         exposed_storage (snd (pullOutDataById (evt_id e) (run P ops s1))) (evt_id e) = None \<and>
         (\<forall>Y. Y \<noteq> evt_id e \<longrightarrow>
            exposed_storage (snd (pullOutDataById (evt_id e) (run P ops s1))) Y
              = exposed_storage (run P ops s1) Y) \<and>
         fst (pullOutDataById (evt_id e) (snd (pullOutDataById (evt_id e) (run P ops s1)))) = Undefined \<and>
         (evt_id e \<notin> evt_id ` (set (sendQueue (run P ops s1)) \<union> set (enqueued ops')) \<longrightarrow>
            fst (pullOutDataById (evt_id e)
                  (run P ops' (snd (pullOutDataById (evt_id e) (run P ops s1))))) = Undefined)"
proof -
  let ?X = "evt_id e"
  let ?s2 = "run P ops s1"
  let ?s3 = "snd (pullOutDataById ?X ?s2)"
  obtain s0 where ne: "next_event s = (Some e, s0)"
    using assms(2) by (cases "next_event s") simp
  have t: "deliver P e s0 = Inr s1"
    using assms(1,3) ne by (simp add: tick_def)
  then have w: "window_defined s0"
    by (cases "window_defined s0") (simp_all add: deliver_eq Let_def)
  have stored: "exposed_storage s1 ?X = Some (stringified P (evt_data e))"
    using t w by (auto simp: deliver_eq Let_def)
  obtain a where a: "a \<in> {e} \<union> set (sendQueue s1) \<union> set (enqueued ops)" "evt_id a = ?X"
    "exposed_storage ?s2 ?X = Some (stringified P (evt_data a))"
    using run_keeps_entry[OF assms(4) _ _ stored, of "{e}"] by blast
  have first: "fst (pullOutDataById ?X ?s2) = stringified P (evt_data a)"
    using a(3) by (simp add: pullOutDataById_def Let_def)
  have some: "\<exists>a. a \<in> insert e (set (sendQueue s1) \<union> set (enqueued ops)) \<and> evt_id a = ?X \<and>
            fst (pullOutDataById ?X ?s2) = stringified P (evt_data a)"
    using a(1,2) first by auto
  have exact: "?X \<notin> evt_id ` (set (sendQueue s1) \<union> set (enqueued ops)) \<longrightarrow>
            fst (pullOutDataById ?X ?s2) = stringified P (evt_data e)"
  proof
    assume fresh: "?X \<notin> evt_id ` (set (sendQueue s1) \<union> set (enqueued ops))"
    have "a = e"
    proof (rule ccontr)
      assume "a \<noteq> e"
      then have "a \<in> set (sendQueue s1) \<union> set (enqueued ops)" using a(1) by auto
      then have "evt_id a \<in> evt_id ` (set (sendQueue s1) \<union> set (enqueued ops))" by (rule imageI)
      then show False using a(2) fresh by simp
    qed
    then show "fst (pullOutDataById ?X ?s2) = stringified P (evt_data e)" using first by simp
  qed
  have gone: "exposed_storage ?s3 ?X = None"
    by (simp add: pullOutDataById_def Let_def)
  have others: "\<forall>Y. Y \<noteq> ?X \<longrightarrow> exposed_storage ?s3 Y = exposed_storage ?s2 Y"
    by (simp add: pullOutDataById_def Let_def)
  have again: "fst (pullOutDataById ?X ?s3) = Undefined"
    by (simp add: pullOutDataById_def Let_def)
  have later: "fst (pullOutDataById ?X (run P ops' ?s3)) = Undefined"
    if fresh: "?X \<notin> evt_id ` (set (sendQueue ?s2) \<union> set (enqueued ops'))"
  proof -
    have "dom (exposed_storage (run P ops' ?s3))
            \<subseteq> dom (exposed_storage ?s3) \<union> evt_id ` set (sendQueue ?s3) \<union> evt_id ` set (enqueued ops')"
      using run_stores_from_queue[of P ops' ?s3] by blast
    moreover have "?X \<notin> dom (exposed_storage ?s3)" using gone by auto
    moreover have "sendQueue ?s3 = sendQueue ?s2" by (simp add: pull_fields)
    ultimately have "?X \<notin> dom (exposed_storage (run P ops' ?s3))"
      using fresh by auto
    then have "exposed_storage (run P ops' ?s3) ?X = None" by auto
    then show ?thesis by (simp add: pullOutDataById_def Let_def)
  qed
  show ?thesis
    using some exact gone others again later by blast
qed

theorem pullOutDataById_at_most_once_witness:
  "fst (pullOutDataById (evt_id ping)
          (run demo_JSON [Send ''pong'' Null draw_c, Tick, HostPull (evt_id pong)] delivered_ping))
     = Str ''{\"n\":1}'' \<and>
   fst (pullOutDataById (evt_id ping)
          (run demo_JSON [Tick, HostPull (evt_id pong)]
             (snd (pullOutDataById (evt_id ping)
                (run demo_JSON [Send ''pong'' Null draw_c, Tick, HostPull (evt_id pong)] delivered_ping)))))
     = Undefined"
proof -
  let ?ops = "[Send ''pong'' Null draw_c, Tick, HostPull (evt_id pong)]"
  let ?ops' = "[Tick, HostPull (evt_id pong)]"
  have ne: "sendQueue registered_with_ping \<noteq> []"
    by (simp add: registered_with_ping_fields)
  have nx: "fst (next_event registered_with_ping) = Some ping"
    by (rule next_event_registered) (simp_all add: registered_with_ping_fields)
  have ids: "evt_id ping \<noteq> evt_id pong"
    using distinct_ids(1) by (simp add: ping_def pong_def)
  have first: "HostPull (evt_id ping) \<notin> set ?ops"
    using ids by simp
  have fresh: "evt_id ping \<notin> evt_id ` (set (sendQueue delivered_ping) \<union> set (enqueued ?ops))"
    using ids by (simp add: delivered_ping_fields pong_def)
  have q: "sendQueue (run demo_JSON ?ops delivered_ping) = []"
    by (simp add: eval_fields delivered_ping_fields)
  have fresh': "evt_id ping \<notin> evt_id ` (set (sendQueue (run demo_JSON ?ops delivered_ping)) \<union> set (enqueued ?ops'))"
    unfolding q by simp
  have payload: "stringified demo_JSON (evt_data ping) = Str ''{\"n\":1}''"
    by (simp add: stringified_def demo_JSON_def ping_def)
  note inst = pullOutDataById_at_most_once[OF ne nx delivered_ping_fields(1) first, of ?ops']
  have a: "fst (pullOutDataById (evt_id ping) (run demo_JSON ?ops delivered_ping))
             = stringified demo_JSON (evt_data ping)"
    using inst fresh by blast
  have b: "fst (pullOutDataById (evt_id ping)
          (run demo_JSON ?ops'
             (snd (pullOutDataById (evt_id ping) (run demo_JSON ?ops delivered_ping))))) = Undefined"
    using inst fresh' by blast
  show ?thesis using a b payload by (simp del: run.simps)
qed

section \<open>One interval at a time\<close>

text \<open>
  Claim C8. In every state of a run at most one interval of the bridge is running. A
  \<^verbatim>\<open>send\<close> while it runs starts no second one; a \<^verbatim>\<open>send\<close> while none runs starts
  exactly one; a tick that finds the queue empty stops the interval and clears the handle,
  and a \<^verbatim>\<open>send\<close> after that starts exactly one again.
\<close>

theorem single_drain_task:
  assumes "reachable P s"
  shows "length (timers s) \<le> 1 \<and>
         (timers s \<noteq> [] \<longrightarrow> timers (send n d r s) = timers s) \<and>
         (timers s = [] \<longrightarrow> length (timers (send n d r s)) = 1) \<and>
         (timers s \<noteq> [] \<and> sendQueue s = [] \<longrightarrow>
            timers (step P Tick s) = [] \<and> interval (step P Tick s) = None \<and>
            length (timers (send n d r (step P Tick s))) = 1)"
proof -
  have one: "one_task s"
    using reachable_consistent[OF assms] by (simp add: consistent_def)
  show ?thesis
    using one by (cases "interval s") (auto simp: one_task_def send_timers tick_eq)
qed

theorem single_drain_task_witness:
  "timers (run demo_JSON [Tick] (construct True False draw_a)) = [1] \<and>
   sendQueue (run demo_JSON [Tick] (construct True False draw_a)) = [] \<and>
   timers (send ''ping'' (Obj [(''n'', Num 1)]) draw_b
             (run demo_JSON [Tick] (construct True False draw_a))) = [1] \<and>
   timers (step demo_JSON Tick (run demo_JSON [Tick] (construct True False draw_a))) = [] \<and>
   length (timers (send ''ping'' (Obj [(''n'', Num 1)]) draw_b
      (step demo_JSON Tick (run demo_JSON [Tick] (construct True False draw_a))))) = 1"
proof -
  let ?s = "run demo_JSON [Tick] (construct True False draw_a)"
  have t: "timers ?s = [1]" and q: "sendQueue ?s = []"
    by (simp_all add: tick_fields eval_fields registration_def)
  have ne: "timers ?s \<noteq> []" using t by simp
  show ?thesis
    using single_drain_task[OF reachable_run[of demo_JSON "[Tick]" True False draw_a],
        of "''ping''" "Obj [(''n'', Num 1)]" draw_b] t q ne
    by (simp del: run.simps step.simps)
qed

section \<open>The registration state only moves forward\<close>

text \<open>
  Claim C5. Under every operation, and so along every run, a registered bridge stays
  registered and a set registration flag stays set; the registration state never moves
  back in the order Unregistered, RegistrationSent, Registered. The same holds for the
  interval's callback on its own, whether it returns or throws.
\<close>

theorem registration_state_monotonic:
  "(isBridgeRegistered s \<longrightarrow> isBridgeRegistered (run P ops s)) \<and>
   (isBridgeRegistrationSent s \<longrightarrow> isBridgeRegistrationSent (run P ops s)) \<and>
   stage (registrationState s) \<le> stage (registrationState (run P ops s)) \<and>
   (isBridgeRegistered s \<longrightarrow> isBridgeRegistered (after (tick P s))) \<and>
   (isBridgeRegistrationSent s \<longrightarrow> isBridgeRegistrationSent (after (tick P s))) \<and>
   stage (registrationState s) \<le> stage (registrationState (after (tick P s)))"
proof -
  have r: "isBridgeRegistered s \<longrightarrow> isBridgeRegistered (run P ops s)"
    by (simp add: run_keeps_registered)
  have t: "isBridgeRegistrationSent s \<longrightarrow> isBridgeRegistrationSent (run P ops s)"
    by (simp add: run_keeps_sent)
  have r': "isBridgeRegistered s \<longrightarrow> isBridgeRegistered (after (tick P s))"
    by (simp add: tick_keeps_flags)
  have t': "isBridgeRegistrationSent s \<longrightarrow> isBridgeRegistrationSent (after (tick P s))"
    by (simp add: tick_keeps_flags)
  show ?thesis
    using r t r' t' stage_mono[OF r t] stage_mono[OF r' t'] by blast
qed

theorem registration_state_monotonic_witness:
  "isBridgeRegistered registered_with_ping \<and>
   isBridgeRegistered
     (run demo_JSON [Tick, HostSend ''pong'' None, Send ''pong'' Null draw_c, Tick, Tick]
        registered_with_ping) \<and>
   isBridgeRegistrationSent (after (tick demo_JSON fresh_with_ping)) \<and>
   isBridgeRegistrationSent
     (run demo_JSON [Send ''pong'' Null draw_c, Tick, HostPull (generateId draw_a)]
        (after (tick demo_JSON fresh_with_ping)))"
proof -
  have sent: "isBridgeRegistrationSent (after (tick demo_JSON fresh_with_ping))"
    by (simp add: eval_fields fresh_with_ping_fields registration_def)
  show ?thesis
    using registration_state_monotonic[of registered_with_ping demo_JSON
        "[Tick, HostSend ''pong'' None, Send ''pong'' Null draw_c, Tick, Tick]"]
      registration_state_monotonic[of "after (tick demo_JSON fresh_with_ping)" demo_JSON
        "[Send ''pong'' Null draw_c, Tick, HostPull (generateId draw_a)]"]
      sent registered_with_ping_fields(2)
    by blast
qed

section \<open>Replies to the registration\<close>

lemma step_registered_events:
  assumes "handler_listening s \<longrightarrow> window_defined s"
  shows "registered_events (step P x s)
           = registered_events s + (if is_reply x \<and> handler_listening s then 1 else 0)"
  using assms
  by (cases x)
     (auto simp: registered_events_def send_fields listener_fields pull_fields tick_keeps_dispatched
        exposed_send_dispatched registered_event_def BRIDGE_SEND_EVENT_def BRIDGE_REGISTER_EVENT_def)

lemma step_registered_iff:
  assumes "handler_listening s \<longrightarrow> window_defined s"
  shows "isBridgeRegistered (step P x s) = (isBridgeRegistered s \<or> (is_reply x \<and> handler_listening s))"
  using assms
  by (cases x)
     (auto simp: send_fields listener_fields pull_fields tick_keeps_flags exposed_send_registered)

lemma step_listening: "handler_listening (step P x s) \<Longrightarrow> handler_listening s"
  by (cases x)
     (auto simp: send_fields listener_fields pull_fields exposed_send_unchanged tick_listening
        split: if_splits)

lemma step_listening_unless_tick:
  "x \<noteq> Tick \<Longrightarrow> handler_listening (step P x s) = handler_listening s"
  by (cases x) (simp_all add: send_fields listener_fields pull_fields exposed_send_unchanged)

lemma run_listening: "handler_listening (run P ops s) \<Longrightarrow> handler_listening s"
  by (induction ops arbitrary: s) (auto dest: step_listening)

lemma tick_detaches:
  assumes "handler_ok s"
  shows "handler_listening (after (tick P s))
           = (handler_listening s \<and> \<not> (sendQueue s \<noteq> [] \<and> isBridgeRegistered s))"
  using assms by (auto simp: tick_fields detached_fields handler_ok_def)

lemma run_registered_events:
  "handler_ok s \<Longrightarrow> registered_events (run P ops s) = registered_events s + heard P ops s"
proof (induction ops arbitrary: s)
  case Nil
  show ?case by simp
next
  case (Cons x xs)
  have l: "handler_listening s \<longrightarrow> window_defined s"
    using Cons.prems by (simp add: handler_ok_def)
  show ?case
    using Cons.IH[OF handler_ok_step[OF Cons.prems, of P x]] step_registered_events[OF l, of P x]
    by simp
qed

lemma heard_le_replies: "heard P ops s \<le> replies ops"
  by (induction ops arbitrary: s) (auto simp: replies_def le_SucI)

lemma heard_all:
  "handler_listening (run P ops s) \<Longrightarrow> heard P ops s = replies ops"
proof (induction ops arbitrary: s)
  case Nil
  show ?case by (simp add: replies_def)
next
  case (Cons x xs)
  have "handler_listening (step P x s)"
    using Cons.prems run_listening[of P xs "step P x s"] by simp
  then have "handler_listening s" by (rule step_listening)
  then show ?case
    using Cons.IH[of "step P x s"] Cons.prems by (simp add: replies_def)
qed

lemma transitions_registered:
  "isBridgeRegistered s \<Longrightarrow> transitions P ops s = 0"
  by (induction ops arbitrary: s) (simp_all add: step_keeps_registered)

lemma transitions_once:
  assumes "handler_ok s" and "window_defined s" and "\<not> isBridgeRegistered s"
  shows "transitions P ops s = (if replies ops = 0 then 0 else 1) \<and>
         (replies ops \<noteq> 0 \<longrightarrow> 1 \<le> heard P ops s)"
  using assms
proof (induction ops arbitrary: s)
  case Nil
  show ?case by (simp add: replies_def)
next
  case (Cons x xs)
  have l: "handler_listening s"
    using Cons.prems by (simp add: handler_ok_def)
  then have lw: "handler_listening s \<longrightarrow> window_defined s"
    using Cons.prems by simp
  have reg: "isBridgeRegistered (step P x s) = is_reply x"
    using step_registered_iff[OF lw, of P x] Cons.prems(3) l by simp
  show ?case
  proof (cases "is_reply x")
    case True
    then show ?thesis
      using reg Cons.prems(3) l transitions_registered[of "step P x s" P xs]
      by (simp add: replies_def)
  next
    case False
    then have "\<not> isBridgeRegistered (step P x s)" using reg by simp
    then show ?thesis
      using Cons.IH[of "step P x s"] Cons.prems False handler_ok_step[OF Cons.prems(1), of P x]
      by (simp add: replies_def step_keeps_window)
  qed
qed

text \<open>
  Claim C2 says that any number of inbound notifications with the registration name cause
  exactly one transition to Registered and exactly one \<^verbatim>\<open>bridgeRegister\<close> event. The
  transition is indeed made once. But the handler is not detached when the bridge becomes
  registered: a later tick detaches it, and only one that finds the queue non-empty. Until
  then every such notification dispatches a \<^verbatim>\<open>bridgeRegister\<close> event. In the run
  \<open>reply_twice\<close> the queue is empty when the host replies, and two events are dispatched.
\<close>

theorem registration_replies_counted_twice:
  "registered_events (run demo_JSON reply_twice (construct True False draw_a)) = 2"
  by (simp add: reply_twice_def registered_events_def eval_fields exposed_send_dispatched
      tick_keeps_dispatched registered_event_def registration_def
      BRIDGE_SEND_EVENT_def BRIDGE_REGISTER_EVENT_def)

text \<open>
  Claim C2, amended. In every run of a bridge constructed in a browser, the registered flag
  goes from false to true exactly once if the run holds an inbound notification with the
  registration name, and never otherwise. One \<^verbatim>\<open>bridgeRegister\<close> event is dispatched for
  each such notification that arrives while the registration handler is listening: for
  the first one always, and for all of them if the handler is still listening at the end.
  Only a tick detaches the handler, and it does so exactly when it finds the bridge
  registered and the queue non-empty.
\<close>

theorem registration_replies_heard_while_listening:
  "transitions P ops (construct True dbg rnd) = (if replies ops = 0 then 0 else 1) \<and>
   registered_events (run P ops (construct True dbg rnd)) = heard P ops (construct True dbg rnd) \<and>
   (replies ops \<noteq> 0 \<longrightarrow> 1 \<le> heard P ops (construct True dbg rnd)) \<and>
   heard P ops (construct True dbg rnd) \<le> replies ops \<and>
   (handler_listening (run P ops (construct True dbg rnd)) \<longrightarrow>
      heard P ops (construct True dbg rnd) = replies ops) \<and>
   handler_listening (after (tick P (run P ops (construct True dbg rnd))))
     = (handler_listening (run P ops (construct True dbg rnd)) \<and>
        \<not> (sendQueue (run P ops (construct True dbg rnd)) \<noteq> [] \<and>
           isBridgeRegistered (run P ops (construct True dbg rnd)))) \<and>
   (\<forall>x. x \<noteq> Tick \<longrightarrow>
      handler_listening (step P x (run P ops (construct True dbg rnd)))
        = handler_listening (run P ops (construct True dbg rnd)))"
proof -
  let ?s = "construct True dbg rnd"
  have ok: "handler_ok ?s"
    using consistent_construct[of True dbg rnd] by (simp add: consistent_def)
  have w: "window_defined ?s" and nr: "\<not> isBridgeRegistered ?s"
    by (simp_all add: construct_fields)
  have ev: "registered_events (run P ops ?s) = heard P ops ?s"
    using run_registered_events[OF ok, of P ops] by (simp add: registered_events_def construct_fields)
  have det: "handler_listening (after (tick P (run P ops ?s)))
     = (handler_listening (run P ops ?s) \<and>
        \<not> (sendQueue (run P ops ?s) \<noteq> [] \<and> isBridgeRegistered (run P ops ?s)))"
    by (rule tick_detaches[OF handler_ok_run[OF ok]])
  have others: "\<forall>x. x \<noteq> Tick \<longrightarrow>
      handler_listening (step P x (run P ops ?s)) = handler_listening (run P ops ?s)"
    by (simp add: step_listening_unless_tick)
  show ?thesis
    using transitions_once[OF ok w nr, of P ops] ev heard_le_replies[of P ops ?s]
      heard_all[of P ops ?s] det others
    by blast
qed

theorem registration_replies_heard_while_listening_witness:
  "replies reply_tick_reply = 2 \<and>
   transitions demo_JSON reply_tick_reply (construct True False draw_a) = 1 \<and>
   registered_events (run demo_JSON reply_tick_reply (construct True False draw_a)) = 1"
proof -
  have r: "replies reply_tick_reply = 2"
    by (simp add: replies_def reply_tick_reply_def)
  have h: "heard demo_JSON reply_tick_reply (construct True False draw_a) = 1"
    by (simp add: reply_tick_reply_def tick_fields tick_keeps_flags eval_fields registration_def)
  show ?thesis
    using registration_replies_heard_while_listening[of demo_JSON reply_tick_reply False draw_a] r h
    by simp
qed

section \<open>Payloads that do not parse\<close>

text \<open>
  Claim C7 says that an inbound notification whose data does not parse still reaches the
  listeners, with an absent or null data field, after an error was reported. The event is
  dispatched and the error reported, but the data field is not empty: \<^verbatim>\<open>_createEvent\<close>
  fills the detail with the text before it tries to parse, and the catch block leaves it
  there. Here is the event dispatched for the text \<^verbatim>\<open>{nope\<close>.
\<close>

theorem malformed_payload_data_not_null:
  "dispatched (exposed_send demo_JSON ''ping'' (Some ''{nope'') (construct True False draw_a))
     = [\<lparr>event_type = ''bridgeSend'', detail_name = ''ping'', detail_data = Str ''{nope''\<rparr>]"
  by (simp add: exposed_send_dispatched construct_fields parsed_data_def demo_JSON_def
      BRIDGE_SEND_EVENT_def REGISTRATION_EVENT_NAME_def)

text \<open>
  Claim C7, amended. For every inbound notification whose data is a non-empty text that
  \<^verbatim>\<open>JSON.parse\<close> rejects, \<^verbatim>\<open>_createEvent\<close> writes the message
  \<^verbatim>\<open>Can't parse json data\<close> to the console as an error and returns an event whose data
  field holds the text itself, unparsed; the exposed \<^verbatim>\<open>send\<close> dispatches that event
  and returns. No branch of it throws.
\<close>

theorem malformed_payload_keeps_raw_text:
  assumes "raw \<noteq> []" and "JSON_parse P raw = None"
  shows "createEvent P eventType name (Some raw) s =
           (\<lparr>event_type = eventType, detail_name = name, detail_data = Str raw\<rparr>,
            s\<lparr>console := console s @ [ConsoleError ''Can't parse json data'']\<rparr>) \<and>
         (\<exists>rest. dispatched (exposed_send P name (Some raw) s) =
            dispatched s @
            \<lparr>event_type = BRIDGE_SEND_EVENT, detail_name = name, detail_data = Str raw\<rparr> # rest) \<and>
         ConsoleError ''Can't parse json data'' \<in> set (console (exposed_send P name (Some raw) s))"
proof -
  have d: "parsed_data P (Some raw) = Str raw"
    using assms by (simp add: parsed_data_def)
  have e: "parse_errors P (Some raw) = [ConsoleError ''Can't parse json data'']"
    using assms by (simp add: parse_errors_def)
  show ?thesis
    by (simp add: createEvent_eq exposed_send_dispatched exposed_send_console d e)
qed

theorem malformed_payload_keeps_raw_text_witness:
  "dispatched (exposed_send demo_JSON ''ping'' (Some ''{nope'') registered_with_ping)
     = dispatched registered_with_ping @
       [\<lparr>event_type = BRIDGE_SEND_EVENT, detail_name = ''ping'', detail_data = Str ''{nope''\<rparr>] \<and>
   ConsoleError ''Can't parse json data''
     \<in> set (console (exposed_send demo_JSON ''ping'' (Some ''{nope'') registered_with_ping))"
proof -
  have p: "JSON_parse demo_JSON ''{nope'' = None"
    by (simp add: demo_JSON_def)
  have ne: "''{nope'' \<noteq> []" by simp
  show ?thesis
    using malformed_payload_keeps_raw_text[OF ne p, of BRIDGE_SEND_EVENT "''ping''" registered_with_ping]
    by (auto simp: exposed_send_dispatched REGISTRATION_EVENT_NAME_def)
qed

end
